theory Spec2Isabelle
  imports Main "HOL-Library.AList"
begin

section \<open>JavaScript values\<close>

text \<open>
  A JavaScript string is a sequence of UTF-16 code units; \<open>length\<close> counts them, as
  \<^verbatim>\<open>String.prototype.length\<close> does. String literals of the source are written
  \<open>js ''...''\<close>.
\<close>

type_synonym jsstring = "nat list"

definition js :: "string \<Rightarrow> jsstring" where
  "js s = map of_char s"

text \<open>
  \<^verbatim>\<open>String.prototype.trim\<close> removes WhiteSpace and LineTerminator code units from both
  ends: TAB, LF, VT, FF, CR, SP, NBSP, U+1680, U+2000..U+200A, U+2028, U+2029, U+202F,
  U+205F, U+3000 and U+FEFF.
\<close>

definition isWhiteSpace :: "nat \<Rightarrow> bool" where
  "isWhiteSpace c \<longleftrightarrow>
     c = 9 \<or> c = 10 \<or> c = 11 \<or> c = 12 \<or> c = 13 \<or> c = 32 \<or> c = 160 \<or> c = 5760 \<or>
     (8192 \<le> c \<and> c \<le> 8202) \<or> c = 8232 \<or> c = 8233 \<or> c = 8239 \<or> c = 8287 \<or>
     c = 12288 \<or> c = 65279"

definition js_trim :: "jsstring \<Rightarrow> jsstring" where
  "js_trim s = rev (dropWhile isWhiteSpace (rev (dropWhile isWhiteSpace s)))"

text \<open>\<^verbatim>\<open>Array.prototype.join\<close> on strings.\<close>

fun js_join :: "jsstring \<Rightarrow> jsstring list \<Rightarrow> jsstring" where
  "js_join sep [] = []"
| "js_join sep [x] = x"
| "js_join sep (x # y # ys) = x @ sep @ js_join sep (y # ys)"

text \<open>
  The value \<^verbatim>\<open>JSON.parse\<close> returns. A number is kept as the two things the handlers can
  observe of it: whether it is truthy (not zero) and the text \<^verbatim>\<open>String(n)\<close> gives.
  An object is the list of its own properties (keys distinct after parsing); a property
  that is absent reads as \<^verbatim>\<open>undefined\<close>, which is \<open>None\<close> here.
\<close>

datatype json =
    JNull
  | JBool bool
  | JNum bool jsstring
  | JStr jsstring
  | JArr "json list"
  | JObj "(jsstring \<times> json) list"

fun truthy :: "json \<Rightarrow> bool" where
  "truthy JNull = False"
| "truthy (JBool b) = b"
| "truthy (JNum nonzero txt) = nonzero"
| "truthy (JStr s) = (s \<noteq> [])"
| "truthy (JArr xs) = True"
| "truthy (JObj fs) = True"

text \<open>
  \<open>field v k\<close> is \<^verbatim>\<open>v.k\<close> for a parsed value \<open>v\<close> that is not null, for the property
  names the handlers read (type, data, message, from, user, action, channels), none of
  which is defined on a prototype of strings, numbers, booleans, arrays or objects.
\<close>

fun field :: "json \<Rightarrow> jsstring \<Rightarrow> json option" where
  "field (JObj fs) k = map_of fs k"
| "field v k = None"

text \<open>\<^verbatim>\<open>!v\<close> for a value that may be undefined.\<close>

fun falsy :: "json option \<Rightarrow> bool" where
  "falsy None = True"
| "falsy (Some v) = (\<not> truthy v)"

text \<open>\<^verbatim>\<open>a || b\<close> where \<open>b\<close> is defined.\<close>

definition or_else :: "json option \<Rightarrow> json \<Rightarrow> json" where
  "or_else a b = (case a of None \<Rightarrow> b | Some v \<Rightarrow> if truthy v then v else b)"

text \<open>
  \<^verbatim>\<open>String(v)\<close> as template literals apply it; inside \<^verbatim>\<open>join\<close> a null element gives the
  empty string.
\<close>

fun js_toString :: "json \<Rightarrow> jsstring" where
  "js_toString JNull = js ''null''"
| "js_toString (JBool b) = (if b then js ''true'' else js ''false'')"
| "js_toString (JNum nonzero txt) = txt"
| "js_toString (JStr s) = s"
| "js_toString (JArr xs) =
     js_join (js '','') (map (\<lambda>x. if x = JNull then [] else js_toString x) xs)"
| "js_toString (JObj fs) = js ''[object Object]''"

definition join_elem :: "json \<Rightarrow> jsstring" where
  "join_elem x = (if x = JNull then [] else js_toString x)"

definition template_string :: "json option \<Rightarrow> jsstring" where
  "template_string v = (case v of None \<Rightarrow> js ''undefined'' | Some x \<Rightarrow> js_toString x)"

section \<open>Server state\<close>

type_synonym ref = nat
type_synonym timer = nat

text \<open>
  The payloads handed to \<^verbatim>\<open>ws.send\<close>, before \<^verbatim>\<open>JSON.stringify\<close>. Timestamps are the
  clock reading in milliseconds (\<^verbatim>\<open>Date.now()\<close>, or the instant \<^verbatim>\<open>toISOString\<close> prints).
  The arguments are the properties of \<^verbatim>\<open>data\<close> that vary:
  \<^item> \<open>System clientId timestamp activeConnections maxConnections\<close>;
  \<^item> \<open>Metrics totalRequests activeConnections requestsPerSecond uptime\<close>;
  \<^item> \<open>Chat from user message timestamp clientId\<close>, where \<open>clientId\<close> is \<open>None\<close> for null;
  \<^item> \<open>Draw fields clientId timestamp\<close>, where \<open>fields\<close> are the properties spread from the
    frame other than the two that the handler sets;
  \<^item> \<open>Subscription channels timestamp\<close>, \<open>Pong timestamp\<close> and \<open>Error message\<close>.
\<close>

datatype message =
    System jsstring int nat nat
  | Metrics nat nat nat int
  | Chat json json jsstring int "jsstring option"
  | Draw "(jsstring \<times> json) list" jsstring int
  | Subscription "json list" int
  | Pong int
  | Error jsstring

text \<open>
  The WebSocket object with the fields the connection handler attaches to it
  (part_001, lines 30-35). \<open>heartbeatInterval\<close> is the variable of that name captured by
  the handler's closures, \<open>listening\<close> says that the handler has registered its
  listeners on the object.
\<close>

record websocket =
  ws_id :: jsstring
  ip :: jsstring
  subscriptions :: "json list"
  isAlive :: bool
  connectedAt :: int
  pingTimeout :: "timer option"
  readyState :: nat
  heartbeatInterval :: timer
  listening :: bool

text \<open>Callbacks queued with \<^verbatim>\<open>setImmediate\<close>.\<close>

datatype task =
    CallBroadcastMetrics
  | CallBroadcastChatMessage jsstring jsstring
  | ChatFanout ref message
  | DrawFanout ref message
  | SystemChatFanout message
  | MetricsFanout message

record serverStats =
  totalRequests :: nat
  activeConnections :: nat
  requestsPerSecond :: nat
  startTime :: int
  requestTimestamps :: "int list"

text \<open>
  \<open>heap\<close> holds the WebSocket objects by address, \<open>clients\<close> is
  \<^verbatim>\<open>serverInstance.clients\<close> and \<open>heartbeats\<close> the map of that name, both in insertion
  order as a JavaScript \<^verbatim>\<open>Map\<close> keeps them. \<open>intervals\<close> and \<open>timeouts\<close> are the
  timers of the runtime that are pending, each with the socket whose closure it runs.
  \<open>sent\<close>, \<open>pinged\<close>, \<open>closed\<close> and \<open>terminated\<close> log the calls of \<^verbatim>\<open>send\<close>,
  \<^verbatim>\<open>ping\<close>, \<^verbatim>\<open>close\<close> and \<^verbatim>\<open>terminate\<close>; a new socket is open (\<open>readyState\<close> 1).
\<close>

record server =
  heap :: "ref \<Rightarrow> websocket"
  nextRef :: ref
  clients :: "(jsstring \<times> ref) list"
  heartbeats :: "(jsstring \<times> timer) list"
  intervals :: "(timer \<times> ref) list"
  timeouts :: "(timer \<times> ref) list"
  nextTimer :: timer
  immediates :: "task list"
  sent :: "(ref \<times> message) list"
  pinged :: "ref list"
  closed :: "(ref \<times> nat \<times> jsstring) list"
  terminated :: "ref list"
  stats :: serverStats
  statsLock :: bool

definition MAX_CONNECTIONS :: nat where
  "MAX_CONNECTIONS = 1000"

abbreviation Map_set :: "'k \<Rightarrow> 'v \<Rightarrow> ('k \<times> 'v) list \<Rightarrow> ('k \<times> 'v) list" where
  "Map_set \<equiv> AList.update"

abbreviation Map_delete :: "'k \<Rightarrow> ('k \<times> 'v) list \<Rightarrow> ('k \<times> 'v) list" where
  "Map_delete \<equiv> AList.delete"

abbreviation Map_get :: "('k \<times> 'v) list \<Rightarrow> 'k \<Rightarrow> 'v option" where
  "Map_get \<equiv> map_of"

abbreviation Map_size :: "('k \<times> 'v) list \<Rightarrow> nat" where
  "Map_size \<equiv> length"

definition new_websocket :: websocket where
  "new_websocket = \<lparr>ws_id = [], ip = [], subscriptions = [], isAlive = False,
     connectedAt = 0, pingTimeout = None, readyState = 1, heartbeatInterval = 0,
     listening = False\<rparr>"

definition init :: "int \<Rightarrow> server" where
  "init now = \<lparr>heap = (\<lambda>w. new_websocket), nextRef = 0, clients = [], heartbeats = [],
     intervals = [], timeouts = [], nextTimer = 0, immediates = [], sent = [], pinged = [],
     closed = [],
     terminated = [],
     stats = \<lparr>totalRequests = 0, activeConnections = 0, requestsPerSecond = 0,
       startTime = now, requestTimestamps = []\<rparr>,
     statsLock = False\<rparr>"

definition upd_ws :: "ref \<Rightarrow> (websocket \<Rightarrow> websocket) \<Rightarrow> server \<Rightarrow> server" where
  "upd_ws w f s = s\<lparr>heap := (heap s)(w := f (heap s w))\<rparr>"

definition ws_send :: "ref \<Rightarrow> message \<Rightarrow> server \<Rightarrow> server" where
  "ws_send w m s = s\<lparr>sent := sent s @ [(w, m)]\<rparr>"

definition ws_terminate :: "ref \<Rightarrow> server \<Rightarrow> server" where
  "ws_terminate w s = s\<lparr>terminated := terminated s @ [w]\<rparr>"

definition ws_close :: "ref \<Rightarrow> nat \<Rightarrow> jsstring \<Rightarrow> server \<Rightarrow> server" where
  "ws_close w code reason s = s\<lparr>closed := closed s @ [(w, code, reason)]\<rparr>"

definition clearInterval :: "timer \<Rightarrow> server \<Rightarrow> server" where
  "clearInterval t s = s\<lparr>intervals := Map_delete t (intervals s)\<rparr>"

definition clearTimeout :: "timer \<Rightarrow> server \<Rightarrow> server" where
  "clearTimeout t s = s\<lparr>timeouts := Map_delete t (timeouts s)\<rparr>"

definition setImmediate :: "task \<Rightarrow> server \<Rightarrow> server" where
  "setImmediate k s = s\<lparr>immediates := immediates s @ [k]\<rparr>"

definition ws_ping :: "ref \<Rightarrow> server \<Rightarrow> server" where
  "ws_ping w s = s\<lparr>pinged := pinged s @ [w]\<rparr>"

text \<open>\<^verbatim>\<open>if (ws.pingTimeout) { clearTimeout(ws.pingTimeout); ws.pingTimeout = null; }\<close>\<close>

definition clear_pingTimeout :: "ref \<Rightarrow> server \<Rightarrow> server" where
  "clear_pingTimeout w s =
     (case pingTimeout (heap s w) of
        None \<Rightarrow> s
      | Some t \<Rightarrow> upd_ws w (\<lambda>c. c\<lparr>pingTimeout := None\<rparr>) (clearTimeout t s))"

section \<open>Message handlers (src/websocket/handlers.js)\<close>

text \<open>
  \<open>member d k\<close> is \<^verbatim>\<open>d.k\<close> where \<open>d\<close> may be undefined; the handlers read it only
  behind the guard \<^verbatim>\<open>!d ||\<close>, so the TypeError of a null or undefined \<open>d\<close> is never
  reached.
\<close>

fun member :: "json option \<Rightarrow> jsstring \<Rightarrow> json option" where
  "member None k = None"
| "member (Some v) k = field v k"

fun is_string :: "json option \<Rightarrow> bool" where
  "is_string (Some (JStr x)) = True"
| "is_string v = False"

fun the_string :: "json option \<Rightarrow> jsstring" where
  "the_string (Some (JStr x)) = x"
| "the_string v = []"

fun isArray :: "json option \<Rightarrow> bool" where
  "isArray (Some (JArr xs)) = True"
| "isArray v = False"

fun the_array :: "json option \<Rightarrow> json list" where
  "the_array (Some (JArr xs)) = xs"
| "the_array v = []"

fun the_object :: "json option \<Rightarrow> (jsstring \<times> json) list" where
  "the_object (Some (JObj fs)) = fs"
| "the_object v = []"

text \<open>
  \<open>handleChatMessage\<close>, lines 9-102. The callback given to \<^verbatim>\<open>setImmediate\<close> is the
  task \<open>ChatFanout ws chatMessage\<close>; it runs later, as \<open>chat_fanout\<close> below.
\<close>

definition handleChatMessage :: "ref \<Rightarrow> json option \<Rightarrow> int \<Rightarrow> server \<Rightarrow> server" where
  "handleChatMessage ws data now s =
     (if falsy data \<or> falsy (member data (js ''message'')) \<or>
         \<not> is_string (member data (js ''message''))
      then ws_send ws (Error (js ''Invalid chat message format. Required: { type: \"chat\", data: { message: \"...\" } }'')) s
      else
        let messageText = js_trim (the_string (member data (js ''message''))) in
        if length messageText = 0
        then ws_send ws (Error (js ''Message cannot be empty'')) s
        else if length messageText > 500
        then ws_send ws (Error (js ''Message too long. Maximum 500 characters.'')) s
        else
          let dflt = JStr (js ''User_'' @ take 6 (ws_id (heap s ws)));
              chatMessage = Chat
                (or_else (member data (js ''from'')) (or_else (member data (js ''user'')) dflt))
                (or_else (member data (js ''user'')) (or_else (member data (js ''from'')) dflt))
                messageText now (Some (ws_id (heap s ws)))
          in setImmediate (ChatFanout ws chatMessage) s)"

text \<open>
  \<open>handleDrawing\<close>, lines 107-169. The payload \<^verbatim>\<open>{...data, clientId, timestamp}\<close> is
  kept as the other properties of \<open>data\<close> together with the two that the handler sets.
\<close>

definition handleDrawing :: "ref \<Rightarrow> json option \<Rightarrow> int \<Rightarrow> server \<Rightarrow> server" where
  "handleDrawing ws data now s =
     (if falsy data \<or> falsy (member data (js ''action''))
      then ws_send ws (Error (js ''Invalid drawing message format'')) s
      else
        let drawMessage = Draw
              (Map_delete (js ''timestamp'') (Map_delete (js ''clientId'') (the_object data)))
              (ws_id (heap s ws)) now
        in setImmediate (DrawFanout ws drawMessage) s)"

definition validChannels :: "json list" where
  "validChannels = [JStr (js ''chat''), JStr (js ''metrics''), JStr (js ''draw''),
     JStr (js ''notification'')]"

text \<open>\<open>handleSubscription\<close>, lines 174-222.\<close>

definition handleSubscription :: "ref \<Rightarrow> json option \<Rightarrow> int \<Rightarrow> server \<Rightarrow> server" where
  "handleSubscription ws data now s =
     (if falsy data \<or> falsy (member data (js ''channels'')) \<or>
         \<not> isArray (member data (js ''channels''))
      then ws_send ws (Error (js ''Invalid subscription format. Expected channels array.'')) s
      else
        let channels = the_array (member data (js ''channels''));
            invalidChannels = filter (\<lambda>ch. ch \<notin> set validChannels) channels
        in
        if length invalidChannels > 0
        then ws_send ws (Error (js ''Invalid channel names: '' @
               js_join (js '', '') (map join_elem invalidChannels) @
               js ''. Valid channels: '' @
               js_join (js '', '') (map join_elem validChannels))) s
        else
          let s = upd_ws ws (\<lambda>c. c\<lparr>subscriptions := channels\<rparr>) s
          in ws_send ws (Subscription (subscriptions (heap s ws)) now) s)"

section \<open>Broadcast fan-out\<close>

text \<open>
  The callback of \<^verbatim>\<open>clientsArray.forEach(([clientId, client]) => ...)\<close> that
  \<open>handleChatMessage\<close> (lines 71-95), \<open>handleDrawing\<close> (lines 138-162),
  \<open>broadcastChatMessage\<close> (server.js, lines 387-406) and \<open>broadcastMetrics\<close>
  (server.js, lines 435-454) each contain. \<open>origin\<close> is \<^verbatim>\<open>ws.id\<close> in the two handlers,
  which skip the sender, and \<open>None\<close> in the two server broadcasts, which have no such test.
  \<open>throws client\<close> says what \<^verbatim>\<open>client.send\<close> does: \<open>None\<close> when it returns,
  \<open>Some r\<close> when it throws and leaves the socket in \<open>readyState\<close> \<open>r\<close>. The second
  component of the accumulator is \<^verbatim>\<open>clientsToRemove\<close>.
\<close>

fun visit ::
  "jsstring option \<Rightarrow> jsstring \<Rightarrow> message \<Rightarrow> (ref \<Rightarrow> nat option) \<Rightarrow>
   jsstring \<times> ref \<Rightarrow> server \<times> jsstring list \<Rightarrow> server \<times> jsstring list" where
  "visit origin channel m throws (clientId, client) (s, clientsToRemove) =
     (if origin = Some clientId then (s, clientsToRemove)
      else if readyState (heap s client) = 1 then
        (if subscriptions (heap s client) \<noteq> [] \<and>
            JStr channel \<in> set (subscriptions (heap s client))
         then
           (case throws client of
              None \<Rightarrow> (ws_send client m s, clientsToRemove)
            | Some r \<Rightarrow>
                (upd_ws client (\<lambda>c. c\<lparr>readyState := r\<rparr>) (ws_send client m s),
                 if r \<noteq> 1 then clientsToRemove @ [clientId] else clientsToRemove))
         else (s, clientsToRemove))
      else (s, clientsToRemove @ [clientId]))"

text \<open>The loop over the snapshot.\<close>

definition fanout_loop ::
  "jsstring option \<Rightarrow> jsstring \<Rightarrow> message \<Rightarrow> (ref \<Rightarrow> nat option) \<Rightarrow>
   (jsstring \<times> ref) list \<Rightarrow> server \<times> jsstring list \<Rightarrow> server \<times> jsstring list" where
  "fanout_loop origin channel m throws clientsArray acc =
     fold (visit origin channel m throws) clientsArray acc"

text \<open>
  The whole callback: snapshot of the entries, the loop, then
  \<^verbatim>\<open>clientsToRemove.forEach(clientId => server.clients.delete(clientId))\<close>.
\<close>

definition fanout ::
  "jsstring option \<Rightarrow> jsstring \<Rightarrow> message \<Rightarrow> (ref \<Rightarrow> nat option) \<Rightarrow> server \<Rightarrow> server" where
  "fanout origin channel m throws s =
     (let clientsArray = clients s;
          r = fanout_loop origin channel m throws clientsArray (s, [])
      in (fst r)\<lparr>clients := fold Map_delete (snd r) (clients (fst r))\<rparr>)"

definition chat_fanout :: "ref \<Rightarrow> message \<Rightarrow> (ref \<Rightarrow> nat option) \<Rightarrow> server \<Rightarrow> server" where
  "chat_fanout ws m throws s = fanout (Some (ws_id (heap s ws))) (js ''chat'') m throws s"

definition draw_fanout :: "ref \<Rightarrow> message \<Rightarrow> (ref \<Rightarrow> nat option) \<Rightarrow> server \<Rightarrow> server" where
  "draw_fanout ws m throws s = fanout (Some (ws_id (heap s ws))) (js ''draw'') m throws s"

text \<open>\<open>broadcastChatMessage\<close> and \<open>broadcastMetrics\<close> (server.js, lines 367-461).\<close>

definition broadcastChatMessage :: "jsstring \<Rightarrow> jsstring \<Rightarrow> int \<Rightarrow> server \<Rightarrow> server" where
  "broadcastChatMessage message from now s =
     setImmediate (SystemChatFanout (Chat (JStr from) (JStr from) message now None)) s"

definition broadcastMetrics :: "int \<Rightarrow> server \<Rightarrow> server" where
  "broadcastMetrics now s =
     setImmediate (MetricsFanout (Metrics (totalRequests (stats s)) (Map_size (clients s))
       (requestsPerSecond (stats s)) ((now - startTime (stats s)) div 1000))) s"

fun run_task :: "task \<Rightarrow> int \<Rightarrow> (ref \<Rightarrow> nat option) \<Rightarrow> server \<Rightarrow> server" where
  "run_task CallBroadcastMetrics now throws s = broadcastMetrics now s"
| "run_task (CallBroadcastChatMessage message from) now throws s =
     broadcastChatMessage message from now s"
| "run_task (ChatFanout ws m) now throws s = chat_fanout ws m throws s"
| "run_task (DrawFanout ws m) now throws s = draw_fanout ws m throws s"
| "run_task (SystemChatFanout m) now throws s = fanout None (js ''chat'') m throws s"
| "run_task (MetricsFanout m) now throws s = fanout None (js ''metrics'') m throws s"

section \<open>Connection set-up and heartbeat (part_001, \<open>setupWebSocketServer\<close>)\<close>

text \<open>
  The interval callback of lines 43-88, for the socket \<open>ws\<close> of its closure.
  \<open>ping_throws\<close> says whether \<^verbatim>\<open>ws.ping()\<close> throws, which takes the handler to its
  \<^verbatim>\<open>catch\<close> block (lines 74-87).
\<close>

definition heartbeat :: "ref \<Rightarrow> bool \<Rightarrow> server \<Rightarrow> server" where
  "heartbeat ws ping_throws s =
     (let clientId = ws_id (heap s ws) in
      if \<not> isAlive (heap s ws) then
        let s = clearInterval (heartbeatInterval (heap s ws)) s;
            s = clear_pingTimeout ws s;
            s = s\<lparr>heartbeats := Map_delete clientId (heartbeats s)\<rparr>
        in ws_terminate ws s
      else
        let s = upd_ws ws (\<lambda>c. c\<lparr>isAlive := False\<rparr>) s in
        if ping_throws then
          let s = clearInterval (heartbeatInterval (heap s ws)) s;
              s = clear_pingTimeout ws s;
              s = s\<lparr>heartbeats := Map_delete clientId (heartbeats s)\<rparr>
          in ws_terminate ws s
        else
          let s = ws_ping ws s;
              s = (case pingTimeout (heap s ws) of None \<Rightarrow> s | Some t \<Rightarrow> clearTimeout t s);
              t = nextTimer s;
              s = s\<lparr>nextTimer := Suc t, timeouts := timeouts s @ [(t, ws)]\<rparr>
          in upd_ws ws (\<lambda>c. c\<lparr>pingTimeout := Some t\<rparr>) s)"

text \<open>The callback of the pong timeout, lines 65-73.\<close>

definition pongTimeout :: "ref \<Rightarrow> server \<Rightarrow> server" where
  "pongTimeout ws s =
     (if \<not> isAlive (heap s ws) \<and> readyState (heap s ws) = 1 then
        let clientId = ws_id (heap s ws);
            s = clearInterval (heartbeatInterval (heap s ws)) s;
            s = s\<lparr>heartbeats := Map_delete clientId (heartbeats s)\<rparr>;
            s = upd_ws ws (\<lambda>c. c\<lparr>pingTimeout := None\<rparr>) s
        in ws_terminate ws s
      else s)"

text \<open>The \<^verbatim>\<open>pong\<close> listener, lines 143-149.\<close>

definition on_pong :: "ref \<Rightarrow> server \<Rightarrow> server" where
  "on_pong ws s = clear_pingTimeout ws (upd_ws ws (\<lambda>c. c\<lparr>isAlive := True\<rparr>) s)"

text \<open>The \<^verbatim>\<open>close\<close> listener, lines 152-195.\<close>

definition on_close :: "ref \<Rightarrow> server \<Rightarrow> server" where
  "on_close ws s =
     (let clientId = ws_id (heap s ws);
          s = (case Map_get (heartbeats s) clientId of
                 None \<Rightarrow> s
               | Some hb \<Rightarrow>
                   (clearInterval hb s)\<lparr>heartbeats := Map_delete clientId (heartbeats s)\<rparr>);
          s = clear_pingTimeout ws s;
          s = s\<lparr>clients := Map_delete clientId (clients s)\<rparr>;
          s = setImmediate CallBroadcastMetrics s
      in setImmediate (CallBroadcastChatMessage
           (js ''User '' @ take 6 clientId @ js '' disconnected'') (js ''System'')) s)"

text \<open>The \<^verbatim>\<open>error\<close> listener, lines 198-209.\<close>

definition on_error :: "ref \<Rightarrow> server \<Rightarrow> server" where
  "on_error ws s =
     (let clientId = ws_id (heap s ws);
          s = (case Map_get (heartbeats s) clientId of
                 None \<Rightarrow> s
               | Some hb \<Rightarrow>
                   (clearInterval hb s)\<lparr>heartbeats := Map_delete clientId (heartbeats s)\<rparr>)
      in s\<lparr>clients := Map_delete clientId (clients s)\<rparr>)"

text \<open>\<open>handleWebSocketMessage\<close>, lines 213-245, for a message that is not null.\<close>

definition handleWebSocketMessage :: "ref \<Rightarrow> json \<Rightarrow> int \<Rightarrow> server \<Rightarrow> server" where
  "handleWebSocketMessage ws message now s =
     (let ty = field message (js ''type''); data = field message (js ''data'') in
      if ty = Some (JStr (js ''chat'')) then handleChatMessage ws data now s
      else if ty = Some (JStr (js ''draw'')) then handleDrawing ws data now s
      else if ty = Some (JStr (js ''subscribe'')) then handleSubscription ws data now s
      else if ty = Some (JStr (js ''ping'')) then ws_send ws (Pong now) s
      else ws_send ws (Error (js ''Unknown message type: '' @ template_string ty)) s)"

text \<open>
  The \<^verbatim>\<open>message\<close> listener, lines 125-140. \<open>parsed\<close> is \<open>None\<close> when
  \<^verbatim>\<open>JSON.parse\<close> throws; reading \<^verbatim>\<open>message.type\<close> of null throws as well, into the same
  \<^verbatim>\<open>catch\<close>.
\<close>

definition on_message :: "ref \<Rightarrow> json option \<Rightarrow> int \<Rightarrow> server \<Rightarrow> server" where
  "on_message ws parsed now s =
     (case parsed of
        None \<Rightarrow> ws_send ws (Error (js ''Invalid message format'')) s
      | Some JNull \<Rightarrow> ws_send ws (Error (js ''Invalid message format'')) s
      | Some m \<Rightarrow> handleWebSocketMessage ws m now s)"

text \<open>
  The \<^verbatim>\<open>connection\<close> listener, lines 17-210. The socket is a new object, at the address
  \<open>nextRef\<close>; \<open>clientId\<close> is the string that line 26 builds from the clock and
  \<^verbatim>\<open>Math.random()\<close>.
\<close>

definition on_connection :: "jsstring \<Rightarrow> jsstring \<Rightarrow> int \<Rightarrow> server \<Rightarrow> server" where
  "on_connection clientId addr now s =
     (let ws = nextRef s;
          s = s\<lparr>nextRef := Suc ws, heap := (heap s)(ws := new_websocket)\<rparr>;
          currentConnections = Map_size (clients s)
      in
      if currentConnections \<ge> MAX_CONNECTIONS
      then ws_close ws 1008 (js ''Server at capacity'') s
      else
        let s = upd_ws ws (\<lambda>c. c\<lparr>ws_id := clientId, ip := addr, subscriptions := [],
                  isAlive := True, connectedAt := now, pingTimeout := None\<rparr>) s;
            s = s\<lparr>clients := Map_set clientId ws (clients s)\<rparr>;
            t = nextTimer s;
            s = s\<lparr>nextTimer := Suc t, intervals := intervals s @ [(t, ws)]\<rparr>;
            s = upd_ws ws (\<lambda>c. c\<lparr>heartbeatInterval := t\<rparr>) s;
            s = s\<lparr>heartbeats := Map_set clientId t (heartbeats s)\<rparr>;
            s = ws_send ws (System clientId now (Map_size (clients s)) MAX_CONNECTIONS) s;
            s = ws_send ws (Metrics (totalRequests (stats s)) (Map_size (clients s))
                  (requestsPerSecond (stats s)) ((now - startTime (stats s)) div 1000)) s
        in upd_ws ws (\<lambda>c. c\<lparr>listening := True\<rparr>) s)"

section \<open>Metrics window (server.js)\<close>

text \<open>
  \<open>startMetricsCalculation\<close>, the callback of lines 192-209, and the part of
  \<open>handleRequest\<close> that records a request, lines 248-259. Both start with
  \<^verbatim>\<open>while (this.statsLock) { }\<close>, which never ends when the flag is set: the result is
  \<open>None\<close> then.
\<close>

definition metricsCalculation :: "int \<Rightarrow> server \<Rightarrow> server option" where
  "metricsCalculation now s =
     (if statsLock s then None
      else
        let s = s\<lparr>statsLock := True\<rparr>;
            s = s\<lparr>stats := (stats s)\<lparr>requestTimestamps :=
                  filter (\<lambda>timestamp. now - timestamp < 1000) (requestTimestamps (stats s))\<rparr>\<rparr>;
            s = s\<lparr>stats := (stats s)\<lparr>requestsPerSecond :=
                  length (requestTimestamps (stats s))\<rparr>\<rparr>
        in Some (s\<lparr>statsLock := False\<rparr>))"

definition handleRequest :: "int \<Rightarrow> server \<Rightarrow> server option" where
  "handleRequest now s =
     (let s = s\<lparr>stats := (stats s)\<lparr>totalRequests := Suc (totalRequests (stats s))\<rparr>\<rparr> in
      if statsLock s then None
      else
        let s = s\<lparr>statsLock := True\<rparr>;
            s = s\<lparr>stats := (stats s)\<lparr>requestTimestamps :=
                  requestTimestamps (stats s) @ [now]\<rparr>\<rparr>
        in Some (s\<lparr>statsLock := False\<rparr>))"

section \<open>Events\<close>

text \<open>
  One event is one callback that the runtime runs to completion. A listener of a socket
  runs only once the connection handler has attached it; a timer callback runs only
  while its timer is pending, and a timeout is no longer pending once it fires.
  \<open>ReadyState\<close> is the library moving a socket to another state (closing, closed).
\<close>

datatype event =
    Connection jsstring jsstring int
  | WsMessage ref "json option" int
  | WsPong ref
  | WsClose ref
  | WsError ref
  | ReadyState ref nat
  | HeartbeatTick timer bool
  | PongTimeout timer
  | Immediate int "ref \<Rightarrow> nat option"
  | MetricsCalculation int
  | MetricsBroadcast int
  | HttpRequest int

fun step :: "event \<Rightarrow> server \<Rightarrow> server option" where
  "step (Connection clientId addr now) s = Some (on_connection clientId addr now s)"
| "step (WsMessage ws parsed now) s =
     Some (if listening (heap s ws) then on_message ws parsed now s else s)"
| "step (WsPong ws) s = Some (if listening (heap s ws) then on_pong ws s else s)"
| "step (WsClose ws) s = Some (if listening (heap s ws) then on_close ws s else s)"
| "step (WsError ws) s = Some (if listening (heap s ws) then on_error ws s else s)"
| "step (ReadyState ws r) s =
     Some (if ws < nextRef s then upd_ws ws (\<lambda>c. c\<lparr>readyState := r\<rparr>) s else s)"
| "step (HeartbeatTick t ping_throws) s =
     Some (case Map_get (intervals s) t of
             None \<Rightarrow> s
           | Some ws \<Rightarrow> heartbeat ws ping_throws s)"
| "step (PongTimeout t) s =
     Some (case Map_get (timeouts s) t of
             None \<Rightarrow> s
           | Some ws \<Rightarrow> pongTimeout ws (s\<lparr>timeouts := Map_delete t (timeouts s)\<rparr>))"
| "step (Immediate now throws) s =
     Some (case immediates s of
             [] \<Rightarrow> s
           | k # ks \<Rightarrow> run_task k now throws (s\<lparr>immediates := ks\<rparr>))"
| "step (MetricsCalculation now) s = metricsCalculation now s"
| "step (MetricsBroadcast now) s = Some (broadcastMetrics now s)"
| "step (HttpRequest now) s = handleRequest now s"

fun run :: "event list \<Rightarrow> server \<Rightarrow> server option" where
  "run [] s = Some s"
| "run (e # es) s = (case step e s of None \<Rightarrow> None | Some s' \<Rightarrow> run es s')"

section \<open>Notions of the specification\<close>

text \<open>
  A chat frame that the specification rejects, in its words: \<^verbatim>\<open>data.message\<close> is
  missing, is not a string, is empty after trimming or has more than 500 code units after
  trimming.
\<close>

definition chat_frame_invalid :: "json option \<Rightarrow> bool" where
  "chat_frame_invalid data =
     (case member data (js ''message'') of
        None \<Rightarrow> True
      | Some (JStr x) \<Rightarrow> js_trim x = [] \<or> length (js_trim x) > 500
      | Some v \<Rightarrow> True)"

text \<open>The whitelist of channel names, as the specification gives it.\<close>

definition whitelist :: "jsstring set" where
  "whitelist = {js ''chat'', js ''metrics'', js ''draw'', js ''notification''}"

section \<open>Reading a fan-out pass\<close>

text \<open>
  An entry of the snapshot that the callback calls \<^verbatim>\<open>send\<close> on, and one that it pushes
  on \<^verbatim>\<open>clientsToRemove\<close>, both read off the state in which the pass starts.
\<close>

definition eligible :: "jsstring option \<Rightarrow> jsstring \<Rightarrow> server \<Rightarrow> jsstring \<times> ref \<Rightarrow> bool" where
  "eligible origin channel s e \<longleftrightarrow>
     origin \<noteq> Some (fst e) \<and> readyState (heap s (snd e)) = 1 \<and>
     JStr channel \<in> set (subscriptions (heap s (snd e)))"

definition marked ::
  "jsstring option \<Rightarrow> jsstring \<Rightarrow> (ref \<Rightarrow> nat option) \<Rightarrow> server \<Rightarrow> jsstring \<times> ref \<Rightarrow> bool" where
  "marked origin channel throws s e \<longleftrightarrow>
     origin \<noteq> Some (fst e) \<and>
     (readyState (heap s (snd e)) \<noteq> 1 \<or>
      (JStr channel \<in> set (subscriptions (heap s (snd e))) \<and>
       (case throws (snd e) of None \<Rightarrow> False | Some r \<Rightarrow> r \<noteq> 1)))"

text \<open>
  The registry of a running server: keys are distinct, as in any \<^verbatim>\<open>Map\<close>, and every
  entry is an allocated socket stored under its own id (line 38 stores \<open>ws\<close> under the
  \<open>clientId\<close> that line 30 has put in \<^verbatim>\<open>ws.id\<close>).
\<close>

definition registry_ok :: "server \<Rightarrow> bool" where
  "registry_ok s \<longleftrightarrow>
     distinct (map fst (clients s)) \<and>
     list_all (\<lambda>e. snd e < nextRef s \<and> ws_id (heap s (snd e)) = fst e) (clients s)"

text \<open>The calls of \<^verbatim>\<open>send\<close> made between two states.\<close>

definition delivered :: "server \<Rightarrow> server \<Rightarrow> (ref \<times> message) list" where
  "delivered s s' = drop (length (sent s)) (sent s')"

section \<open>Reading the timers\<close>

text \<open>The pong timeouts of a socket that are pending.\<close>

definition pending_timeouts :: "ref \<Rightarrow> server \<Rightarrow> (timer \<times> ref) list" where
  "pending_timeouts ws s = filter (\<lambda>e. snd e = ws) (timeouts s)"

text \<open>
  The timers of a running server: the pending timeouts have distinct handles, each was
  handed out by the runtime before, belongs to an allocated socket and is the handle
  that the socket keeps in \<^verbatim>\<open>ws.pingTimeout\<close>; every interval runs for an allocated socket.
\<close>

definition timers_ok :: "server \<Rightarrow> bool" where
  "timers_ok s \<longleftrightarrow>
     distinct (map fst (timeouts s)) \<and>
     list_all (\<lambda>e. fst e < nextTimer s \<and> snd e < nextRef s \<and>
       pingTimeout (heap s (snd e)) = Some (fst e)) (timeouts s) \<and>
     list_all (\<lambda>e. snd e < nextRef s) (intervals s)"

text \<open>
  Two states between which no socket was allocated, no timer was set or cleared and no
  socket changed its id or its \<^verbatim>\<open>pingTimeout\<close>.
\<close>

definition quiet :: "server \<Rightarrow> server \<Rightarrow> bool" where
  "quiet s s' \<longleftrightarrow>
     nextRef s' = nextRef s \<and> timeouts s' = timeouts s \<and> nextTimer s' = nextTimer s \<and>
     intervals s' = intervals s \<and>
     (\<forall>c. ws_id (heap s' c) = ws_id (heap s c) \<and>
          pingTimeout (heap s' c) = pingTimeout (heap s c))"

section \<open>Scenarios\<close>

text \<open>One admitted socket, at address 0, with the id \<open>abcdefgh\<close>.\<close>

definition one_client :: server where
  "one_client = on_connection (js ''abcdefgh'') [] 0 (init 0)"

text \<open>Chat frames: an empty \<open>from\<close>, a \<open>user\<close> only, a message of blanks.\<close>

definition frame_empty_from :: "json option" where
  "frame_empty_from = Some (JObj [(js ''message'', JStr (js ''hi'')), (js ''from'', JStr [])])"

definition frame_only_user :: "json option" where
  "frame_only_user = Some (JObj [(js ''message'', JStr (js '' hi '')), (js ''user'', JStr (js ''bob''))])"

definition frame_blank :: "json option" where
  "frame_blank = Some (JObj [(js ''message'', JStr (js ''   ''))])"

text \<open>The \<open>data\<close> of a subscribe frame.\<close>

definition subscribe_data :: "jsstring list \<Rightarrow> json option" where
  "subscribe_data cs = Some (JObj [(js ''channels'', JArr (map JStr cs))])"

text \<open>
  Two admitted sockets, \<open>aaaaaaaa\<close> at address 0 and \<open>bbbbbbbb\<close> at address 1; the second
  has subscribed to chat. In \<open>closing_peer\<close> the second socket has left the open state.
\<close>

definition subscribe_frame :: "jsstring list \<Rightarrow> json option" where
  "subscribe_frame cs = Some (JObj [(js ''type'', JStr (js ''subscribe'')),
     (js ''data'', JObj [(js ''channels'', JArr (map JStr cs))])])"

definition chat_pair :: server where
  "chat_pair = on_message 1 (subscribe_frame [js ''chat'']) 2
     (on_connection (js ''bbbbbbbb'') [] 1 (on_connection (js ''aaaaaaaa'') [] 0 (init 0)))"

definition closing_peer :: server where
  "closing_peer = upd_ws 1 (\<lambda>c. c\<lparr>readyState := 2\<rparr>) chat_pair"

text \<open>A chat payload, and two behaviours of \<^verbatim>\<open>send\<close> on the socket at address 1.\<close>

definition hello :: message where
  "hello = Chat (JStr (js ''User_aaaaaa'')) (JStr (js ''User_aaaaaa'')) (js ''hi'') 3
     (Some (js ''aaaaaaaa''))"

definition throws_open :: "ref \<Rightarrow> nat option" where
  "throws_open c = (if c = 1 then Some 1 else None)"

definition throws_closed :: "ref \<Rightarrow> nat option" where
  "throws_closed c = (if c = 1 then Some 3 else None)"

text \<open>A registry that holds \<open>MAX_CONNECTIONS\<close> sockets.\<close>

definition full_registry :: server where
  "full_registry = (init 0)\<lparr>clients := map (\<lambda>n. ([n], n)) [0..<1000], nextRef := 1000\<rparr>"

text \<open>The window of Scenario D at time 2000, after three recorded requests.\<close>

definition window_D :: server where
  "window_D = (init 0)\<lparr>stats := (stats (init 0))\<lparr>totalRequests := 3,
     requestTimestamps := [500, 1200, 1900]\<rparr>\<rparr>"

section \<open>Basic facts\<close>


lemmas prim_defs = upd_ws_def ws_send_def ws_terminate_def ws_close_def clearInterval_def
  clearTimeout_def setImmediate_def ws_ping_def clear_pingTimeout_def

lemma length_Map_set_le: "Map_size (Map_set k v al) \<le> Suc (Map_size al)"
  by (induction al) auto

lemma length_fold_Map_delete_le: "Map_size (fold Map_delete ks al) \<le> Map_size al"
proof (induction ks arbitrary: al)
  case Nil
  show ?case by simp
next
  case (Cons k ks)
  have "Map_size (fold Map_delete ks (Map_delete k al)) \<le> Map_size (Map_delete k al)"
    by (rule Cons.IH)
  also have "\<dots> \<le> Map_size al" by (rule length_delete_le)
  finally show ?case by simp
qed

lemma clients_visit: "clients (fst (visit origin channel m throws e acc)) = clients (fst acc)"
  by (cases e; cases acc) (simp add: prim_defs split: option.splits)

lemma clients_fanout_loop:
  "clients (fst (fanout_loop origin channel m throws xs acc)) = clients (fst acc)"
  unfolding fanout_loop_def
  by (induction xs arbitrary: acc) (simp_all add: clients_visit)

lemma clients_fanout:
  "clients (fanout origin channel m throws s) =
     fold Map_delete (snd (fanout_loop origin channel m throws (clients s) (s, []))) (clients s)"
  by (simp add: fanout_def Let_def clients_fanout_loop)

lemma clients_handleChatMessage: "clients (handleChatMessage ws d now s) = clients s"
  by (simp add: handleChatMessage_def prim_defs Let_def)

lemma clients_handleDrawing: "clients (handleDrawing ws d now s) = clients s"
  by (simp add: handleDrawing_def prim_defs Let_def)

lemma clients_handleSubscription: "clients (handleSubscription ws d now s) = clients s"
  by (simp add: handleSubscription_def prim_defs Let_def)

lemma clients_on_message: "clients (on_message ws parsed now s) = clients s"
  by (simp add: on_message_def handleWebSocketMessage_def clients_handleChatMessage
      clients_handleDrawing clients_handleSubscription prim_defs Let_def
      split: option.splits json.splits)

lemma clients_heartbeat: "clients (heartbeat ws p s) = clients s"
  by (simp add: heartbeat_def prim_defs Let_def split: option.splits)

lemma clients_pongTimeout: "clients (pongTimeout ws s) = clients s"
  by (simp add: pongTimeout_def prim_defs Let_def)

lemma clients_on_pong: "clients (on_pong ws s) = clients s"
  by (simp add: on_pong_def prim_defs split: option.splits)

lemma clients_on_close: "clients (on_close ws s) = Map_delete (ws_id (heap s ws)) (clients s)"
  by (simp add: on_close_def prim_defs Let_def split: option.splits)

lemma clients_on_error: "clients (on_error ws s) = Map_delete (ws_id (heap s ws)) (clients s)"
  by (simp add: on_error_def prim_defs Let_def split: option.splits)

lemma clients_run_task:
  "\<exists>ks. clients (run_task k now throws s) = fold Map_delete ks (clients s)"
proof (cases k)
  case CallBroadcastMetrics
  then have "clients (run_task k now throws s) = fold Map_delete [] (clients s)"
    by (simp add: broadcastMetrics_def prim_defs)
  then show ?thesis by blast
next
  case (CallBroadcastChatMessage x y)
  then have "clients (run_task k now throws s) = fold Map_delete [] (clients s)"
    by (simp add: broadcastChatMessage_def prim_defs)
  then show ?thesis by blast
next
  case (ChatFanout w m)
  then show ?thesis by (simp add: chat_fanout_def clients_fanout) blast
next
  case (DrawFanout w m)
  then show ?thesis by (simp add: draw_fanout_def clients_fanout) blast
next
  case (SystemChatFanout m)
  then show ?thesis by (simp add: clients_fanout) blast
next
  case (MetricsFanout m)
  then show ?thesis by (simp add: clients_fanout) blast
qed

lemma clients_on_connection:
  "clients (on_connection clientId addr now s) =
     (if MAX_CONNECTIONS \<le> Map_size (clients s) then clients s
      else Map_set clientId (nextRef s) (clients s))"
  by (simp add: on_connection_def prim_defs Let_def)

text \<open>What one event does to the registry.\<close>

lemma step_clients:
  assumes "step e s = Some s'"
  shows "(\<exists>ks. clients s' = fold Map_delete ks (clients s)) \<or>
         (Map_size (clients s) < MAX_CONNECTIONS \<and>
          (\<exists>k. clients s' = Map_set k (nextRef s) (clients s)))"
proof (cases e)
  case (Connection clientId addr now)
  show ?thesis
  proof (cases "MAX_CONNECTIONS \<le> Map_size (clients s)")
    case True
    with Connection assms have "clients s' = fold Map_delete [] (clients s)"
      by (auto simp: clients_on_connection)
    then show ?thesis by blast
  next
    case False
    with Connection assms show ?thesis
      by (auto simp: clients_on_connection)
  qed
next
  case (WsMessage ws parsed now)
  with assms have "clients s' = fold Map_delete [] (clients s)"
    by (auto simp: clients_on_message)
  then show ?thesis by blast
next
  case (WsPong ws)
  with assms have "clients s' = fold Map_delete [] (clients s)"
    by (auto simp: clients_on_pong)
  then show ?thesis by blast
next
  case (WsClose ws)
  with assms have "clients s' = fold Map_delete [] (clients s) \<or>
      clients s' = fold Map_delete [ws_id (heap s ws)] (clients s)"
    by (auto simp: clients_on_close)
  then show ?thesis by blast
next
  case (WsError ws)
  with assms have "clients s' = fold Map_delete [] (clients s) \<or>
      clients s' = fold Map_delete [ws_id (heap s ws)] (clients s)"
    by (auto simp: clients_on_error)
  then show ?thesis by blast
next
  case (ReadyState ws r)
  with assms have "clients s' = fold Map_delete [] (clients s)"
    by (auto simp: prim_defs)
  then show ?thesis by blast
next
  case (HeartbeatTick t p)
  with assms have "clients s' = fold Map_delete [] (clients s)"
    by (auto simp: clients_heartbeat split: option.splits)
  then show ?thesis by blast
next
  case (PongTimeout t)
  with assms have "clients s' = fold Map_delete [] (clients s)"
    by (auto simp: clients_pongTimeout split: option.splits)
  then show ?thesis by blast
next
  case (Immediate now throws)
  show ?thesis
  proof (cases "immediates s")
    case Nil
    with Immediate assms have "clients s' = fold Map_delete [] (clients s)" by auto
    then show ?thesis by blast
  next
    case (Cons k ks)
    with Immediate assms have "s' = run_task k now throws (s\<lparr>immediates := ks\<rparr>)" by auto
    with clients_run_task [of k now throws "s\<lparr>immediates := ks\<rparr>"] show ?thesis by auto
  qed
next
  case (MetricsCalculation now)
  with assms have "clients s' = fold Map_delete [] (clients s)"
    by (auto simp: metricsCalculation_def Let_def split: if_splits)
  then show ?thesis by blast
next
  case (MetricsBroadcast now)
  with assms have "clients s' = fold Map_delete [] (clients s)"
    by (auto simp: broadcastMetrics_def prim_defs)
  then show ?thesis by blast
next
  case (HttpRequest now)
  with assms have "clients s' = fold Map_delete [] (clients s)"
    by (auto simp: handleRequest_def Let_def split: if_splits)
  then show ?thesis by blast
qed

lemma step_size:
  assumes "step e s = Some s'" and "Map_size (clients s) \<le> MAX_CONNECTIONS"
  shows "Map_size (clients s') \<le> MAX_CONNECTIONS"
proof -
  from step_clients [OF assms(1)] show ?thesis
  proof
    assume "\<exists>ks. clients s' = fold Map_delete ks (clients s)"
    then obtain ks where "clients s' = fold Map_delete ks (clients s)" ..
    with length_fold_Map_delete_le [of ks "clients s"] assms(2) show ?thesis by simp
  next
    assume a: "Map_size (clients s) < MAX_CONNECTIONS \<and>
      (\<exists>k. clients s' = Map_set k (nextRef s) (clients s))"
    then obtain k where "clients s' = Map_set k (nextRef s) (clients s)" by blast
    with length_Map_set_le [of k "nextRef s" "clients s"] a show ?thesis by simp
  qed
qed

lemma run_size:
  "run es s = Some s' \<Longrightarrow> Map_size (clients s) \<le> MAX_CONNECTIONS \<Longrightarrow>
   Map_size (clients s') \<le> MAX_CONNECTIONS"
proof (induction es arbitrary: s)
  case Nil
  then show ?case by simp
next
  case (Cons e es)
  from Cons.prems(1) obtain s1 where s1: "step e s = Some s1" and r: "run es s1 = Some s'"
    by (auto split: option.splits)
  from step_size [OF s1 Cons.prems(2)] Cons.IH [OF r] show ?case by blast
qed


lemma statsLock_visit:
  "statsLock (fst (visit origin channel m throws e acc)) = statsLock (fst acc)"
  by (cases e; cases acc) (simp add: prim_defs split: option.splits)

lemma statsLock_fanout_loop:
  "statsLock (fst (fanout_loop origin channel m throws xs acc)) = statsLock (fst acc)"
  unfolding fanout_loop_def
  by (induction xs arbitrary: acc) (simp_all add: statsLock_visit)

lemma statsLock_run_task: "statsLock (run_task k now throws s) = statsLock s"
  by (cases k)
     (simp_all add: broadcastMetrics_def broadcastChatMessage_def chat_fanout_def
        draw_fanout_def fanout_def Let_def statsLock_fanout_loop prim_defs)

lemma statsLock_on_message: "statsLock (on_message ws parsed now s) = statsLock s"
  by (simp add: on_message_def handleWebSocketMessage_def handleChatMessage_def
      handleDrawing_def handleSubscription_def prim_defs Let_def
      split: option.splits json.splits)

lemma step_total:
  assumes "\<not> statsLock s"
  shows "\<exists>s'. step e s = Some s' \<and> \<not> statsLock s'"
proof (cases e)
  case (Immediate now throws)
  with assms show ?thesis
    by (cases "immediates s") (simp_all add: statsLock_run_task)
next
  case (WsMessage ws parsed now)
  with assms show ?thesis by (simp add: statsLock_on_message)
next
  case (HeartbeatTick t p)
  with assms show ?thesis
    by (simp add: heartbeat_def prim_defs Let_def split: option.splits)
next
  case (PongTimeout t)
  with assms show ?thesis
    by (simp add: pongTimeout_def prim_defs Let_def split: option.splits)
qed (use assms in \<open>simp_all add: on_connection_def on_pong_def on_close_def on_error_def
      metricsCalculation_def handleRequest_def broadcastMetrics_def prim_defs Let_def
      split: option.splits\<close>)

lemma run_total:
  "\<not> statsLock s \<Longrightarrow> \<exists>s'. run es s = Some s' \<and> \<not> statsLock s'"
proof (induction es arbitrary: s)
  case Nil
  then show ?case by simp
next
  case (Cons e es)
  from step_total [OF Cons.prems, of e] obtain s1
    where "step e s = Some s1" and "\<not> statsLock s1" by blast
  with Cons.IH [of s1] show ?case by simp
qed

section \<open>Connection Registry\<close>

text \<open>
  Claim C1. From every state whose registry holds at most \<open>MAX_CONNECTIONS\<close> = 1000
  sockets (the initial state is one), every sequence of events runs to the end and leaves
  a registry of at most 1000 sockets. The events are all the callbacks of the server, among
  them every admission (\<open>Connection\<close>) and every removal (\<open>WsClose\<close>, \<open>WsError\<close>, the
  sweeps after a fan-out). A connection that arrives while the registry holds 1000 sockets
  is closed with code 1008 and nothing else happens: the registry map is the same.
\<close>

theorem registry_capacity:
  assumes "Map_size (clients s) \<le> MAX_CONNECTIONS" and "\<not> statsLock s"
  shows "\<exists>s'. run es s = Some s' \<and> Map_size (clients s') \<le> MAX_CONNECTIONS \<and>
     (Map_size (clients s') = MAX_CONNECTIONS \<longrightarrow>
        on_connection clientId addr now s' =
          ws_close (nextRef s') 1008 (js ''Server at capacity'')
            (s'\<lparr>nextRef := Suc (nextRef s'),
                heap := (heap s')(nextRef s' := new_websocket)\<rparr>) \<and>
        clients (on_connection clientId addr now s') = clients s')"
proof -
  from run_total [OF assms(2), of es] obtain s' where r: "run es s = Some s'" by blast
  from run_size [OF r assms(1)] have "Map_size (clients s') \<le> MAX_CONNECTIONS" .
  with r show ?thesis
    by (simp add: on_connection_def Let_def ws_close_def)
qed

theorem registry_capacity_witness:
  "Map_size (clients full_registry) \<le> MAX_CONNECTIONS \<and> \<not> statsLock full_registry \<and>
   (\<exists>s'. run [Connection (js ''late'') [] 7] full_registry = Some s' \<and>
      Map_size (clients s') = MAX_CONNECTIONS \<and>
      clients (on_connection (js ''later'') [] 8 s') = clients full_registry)"
  using registry_capacity [of full_registry "[Connection (js ''late'') [] 7]" "js ''later''" "[]" 8]
  by (simp add: full_registry_def init_def MAX_CONNECTIONS_def on_connection_def Let_def
      ws_close_def)

text \<open>
  Claim C9. Removal is \<^verbatim>\<open>serverInstance.clients.delete(clientId)\<close> in the \<^verbatim>\<open>close\<close> and
  \<^verbatim>\<open>error\<close> listeners. Deleting a key \<open>k\<close> that the registry does not hold leaves it as it
  is, and deleting \<open>k\<close> twice gives what deleting it once gives. So when the id of the
  socket is not a key of the registry, the listener leaves the registry as it is; running
  a listener a second time, or one after the other, gives the same registry (same
  entries, hence same size) as running it once.
\<close>

theorem registry_remove_idempotent:
  "clients (on_close ws s) = Map_delete (ws_id (heap s ws)) (clients s) \<and>
   clients (on_error ws s) = Map_delete (ws_id (heap s ws)) (clients s) \<and>
   (k \<notin> fst ` set (clients s) \<longrightarrow> Map_delete k (clients s) = clients s) \<and>
   Map_delete k (Map_delete k (clients s)) = Map_delete k (clients s) \<and>
   (ws_id (heap s ws) \<notin> fst ` set (clients s) \<longrightarrow> clients (on_close ws s) = clients s) \<and>
   clients (on_close ws (on_close ws s)) = clients (on_close ws s) \<and>
   clients (on_close ws (on_error ws s)) = clients (on_error ws s) \<and>
   clients (on_error ws (on_close ws s)) = clients (on_close ws s) \<and>
   Map_size (clients (on_close ws (on_close ws s))) = Map_size (clients (on_close ws s))"
proof -
  have a: "ws_id (heap (on_close ws s) ws) = ws_id (heap s ws)"
    by (simp add: on_close_def prim_defs Let_def split: option.splits)
  have b: "ws_id (heap (on_error ws s) ws) = ws_id (heap s ws)"
    by (simp add: on_error_def prim_defs Let_def split: option.splits)
  show ?thesis
    by (simp add: clients_on_close clients_on_error a b delete_idem)
qed

theorem registry_remove_idempotent_witness:
  "clients one_client = [(js ''abcdefgh'', 0)] \<and>
   clients (on_close 0 one_client) = [] \<and>
   ws_id (heap (on_close 0 one_client) 0) \<notin> fst ` set (clients (on_close 0 one_client)) \<and>
   clients (on_close 0 (on_close 0 one_client)) = clients (on_close 0 one_client)"
proof -
  have a: "clients one_client = [(js ''abcdefgh'', 0)]"
    and b: "ws_id (heap one_client 0) = js ''abcdefgh''"
    by (simp_all add: one_client_def on_connection_def init_def new_websocket_def
        MAX_CONNECTIONS_def Let_def prim_defs)
  from a b have c: "clients (on_close 0 one_client) = []"
    by (simp add: clients_on_close)
  from registry_remove_idempotent [of 0 "on_close 0 one_client" "js ''abcdefgh''"] a c
  show ?thesis by simp
qed

section \<open>Metrics window\<close>

text \<open>
  Claim C8. Between callbacks the flag \<open>statsLock\<close> is not set (\<open>run_total\<close>). The
  eviction then returns, keeps exactly the timestamps with \<open>now - timestamp < 1000\<close>, in
  their order (one that is exactly 1000 ms old is dropped), and sets
  \<open>requestsPerSecond\<close> to the length of what it kept. For the window of Scenario D,
  timestamps at \<open>now - 1500\<close>, \<open>now - 800\<close> and \<open>now - 100\<close>, that is 2.
\<close>

theorem metrics_eviction:
  assumes "\<not> statsLock s"
  shows "\<exists>s'. metricsCalculation now s = Some s' \<and>
     requestTimestamps (stats s') =
       filter (\<lambda>timestamp. now - timestamp < 1000) (requestTimestamps (stats s)) \<and>
     requestsPerSecond (stats s') = length (requestTimestamps (stats s')) \<and>
     (requestTimestamps (stats s) = [now - 1500, now - 800, now - 100] \<longrightarrow>
        requestsPerSecond (stats s') = 2)"
  using assms by (auto simp: metricsCalculation_def Let_def)


theorem metrics_eviction_witness:
  "run [HttpRequest 500, HttpRequest 1200, HttpRequest 1900] (init 0) = Some window_D \<and>
   \<not> statsLock window_D \<and>
   (\<exists>s'. metricsCalculation 2000 window_D = Some s' \<and>
      requestTimestamps (stats s') = [1200, 1900] \<and> requestsPerSecond (stats s') = 2)"
  using metrics_eviction [of window_D 2000]
  by (auto simp: window_D_def init_def handleRequest_def Let_def)



lemma js_trim_Nil: "js_trim [] = []"
  by (simp add: js_trim_def)

lemma member_data_truthy: "member data k = Some v \<Longrightarrow> \<not> falsy data"
  by (cases data; cases "the data") auto

lemma handleChatMessage_invalid:
  assumes "chat_frame_invalid data"
  shows "\<exists>e. handleChatMessage ws data now s = ws_send ws (Error e) s"
proof (cases "member data (js ''message'')")
  case None
  then show ?thesis by (auto simp: handleChatMessage_def)
next
  case (Some v)
  note nf = member_data_truthy [OF Some]
  show ?thesis
  proof (cases v)
    case (JStr x)
    with assms Some nf show ?thesis
      by (cases "x = []") (auto simp: chat_frame_invalid_def handleChatMessage_def Let_def)
  qed (use Some in \<open>auto simp: handleChatMessage_def\<close>)
qed

lemma handleChatMessage_valid:
  assumes "\<not> chat_frame_invalid data"
  shows "handleChatMessage ws data now s =
     setImmediate (ChatFanout ws (Chat
       (or_else (member data (js ''from''))
          (or_else (member data (js ''user''))
             (JStr (js ''User_'' @ take 6 (ws_id (heap s ws))))))
       (or_else (member data (js ''user''))
          (or_else (member data (js ''from''))
             (JStr (js ''User_'' @ take 6 (ws_id (heap s ws))))))
       (js_trim (the_string (member data (js ''message'')))) now
       (Some (ws_id (heap s ws))))) s"
proof (cases "member data (js ''message'')")
  case None
  with assms show ?thesis by (simp add: chat_frame_invalid_def)
next
  case (Some v)
  note nf = member_data_truthy [OF Some]
  show ?thesis
  proof (cases v)
    case (JStr x)
    with assms Some have "js_trim x \<noteq> []" and "length (js_trim x) \<le> 500"
      by (simp_all add: chat_frame_invalid_def)
    moreover from this have "x \<noteq> []" by (auto simp: js_trim_Nil)
    ultimately show ?thesis using Some JStr nf
      by (simp add: handleChatMessage_def Let_def)
  qed (use assms Some in \<open>simp_all add: chat_frame_invalid_def\<close>)
qed

section \<open>Chat frames\<close>

text \<open>
  Claim C7. A chat frame that is invalid in the sense of \<open>chat_frame_invalid\<close> makes
  \<open>handleChatMessage\<close> call \<^verbatim>\<open>ws.send\<close> once, on the sender, with an error message, and
  do nothing else: no fan-out is queued, no socket object and no registry entry changes,
  no socket is closed or terminated. Any other chat frame queues one fan-out and sends
  nothing to the sender.
\<close>

theorem chat_validation:
  "(chat_frame_invalid data \<longrightarrow>
      (\<exists>e. handleChatMessage ws data now s = s\<lparr>sent := sent s @ [(ws, Error e)]\<rparr>) \<and>
      immediates (handleChatMessage ws data now s) = immediates s \<and>
      heap (handleChatMessage ws data now s) = heap s \<and>
      clients (handleChatMessage ws data now s) = clients s \<and>
      closed (handleChatMessage ws data now s) = closed s \<and>
      terminated (handleChatMessage ws data now s) = terminated s) \<and>
   (\<not> chat_frame_invalid data \<longrightarrow>
      sent (handleChatMessage ws data now s) = sent s \<and>
      (\<exists>m. handleChatMessage ws data now s = s\<lparr>immediates := immediates s @ [ChatFanout ws m]\<rparr>))"
proof (cases "chat_frame_invalid data")
  case True
  from handleChatMessage_invalid [OF True, of ws now s] obtain e
    where "handleChatMessage ws data now s = ws_send ws (Error e) s" ..
  with True show ?thesis by (auto simp: ws_send_def)
next
  case False
  from handleChatMessage_valid [OF False, of ws now s] False show ?thesis
    by (auto simp: setImmediate_def)
qed


lemmas eval_defs = js_def js_trim_def isWhiteSpace_def chat_frame_invalid_def or_else_def
  one_client_def on_connection_def init_def new_websocket_def MAX_CONNECTIONS_def Let_def

theorem chat_validation_witness:
  "chat_frame_invalid frame_blank \<and>
   handleChatMessage 0 frame_blank 1 one_client =
     one_client\<lparr>sent := sent one_client @ [(0, Error (js ''Message cannot be empty''))]\<rparr> \<and>
   \<not> chat_frame_invalid frame_only_user \<and>
   sent (handleChatMessage 0 frame_only_user 1 one_client) = sent one_client"
  using chat_validation [of frame_blank 0 1 one_client]
    chat_validation [of frame_only_user 0 1 one_client]
  by (simp add: frame_blank_def frame_only_user_def handleChatMessage_def eval_defs prim_defs)

text \<open>
  Claim C10, amended. In the payload of an accepted chat frame, \<open>from\<close> and \<open>user\<close> are
  both \<open>User_\<close> followed by the first six code units of the sender's id when neither
  \<^verbatim>\<open>data.from\<close> nor \<^verbatim>\<open>data.user\<close> is truthy; when exactly one of the two is truthy, both
  are that value. A property that is present but falsy (the empty string, null, false, 0)
  counts as absent, because the payload is built with \<^verbatim>\<open>||\<close>.
\<close>

theorem chat_sender_name:
  assumes "\<not> chat_frame_invalid data"
  shows "\<exists>f u. handleChatMessage ws data now s =
       setImmediate (ChatFanout ws (Chat f u
         (js_trim (the_string (member data (js ''message'')))) now
         (Some (ws_id (heap s ws))))) s \<and>
     (falsy (member data (js ''from'')) \<and> falsy (member data (js ''user'')) \<longrightarrow>
        f = JStr (js ''User_'' @ take 6 (ws_id (heap s ws))) \<and> u = f) \<and>
     (\<forall>v. member data (js ''from'') = Some v \<and> truthy v \<and> falsy (member data (js ''user'')) \<longrightarrow>
        f = v \<and> u = v) \<and>
     (\<forall>v. member data (js ''user'') = Some v \<and> truthy v \<and> falsy (member data (js ''from'')) \<longrightarrow>
        f = v \<and> u = v)"
proof -
  have a: "or_else x d = d" if "falsy x" for x d
    using that by (cases x) (simp_all add: or_else_def)
  have b: "or_else (Some v) d = v" if "truthy v" for v d
    using that by (simp add: or_else_def)
  show ?thesis
    unfolding handleChatMessage_valid [OF assms]
    by (intro exI conjI impI allI) (rule refl, auto simp: a b)
qed

theorem chat_sender_name_witness:
  "\<not> chat_frame_invalid frame_only_user \<and>
   member frame_only_user (js ''user'') = Some (JStr (js ''bob'')) \<and>
   falsy (member frame_only_user (js ''from'')) \<and>
   handleChatMessage 0 frame_only_user 1 one_client =
     setImmediate (ChatFanout 0 (Chat (JStr (js ''bob'')) (JStr (js ''bob'')) (js ''hi'') 1
       (Some (js ''abcdefgh'')))) one_client"
  using chat_sender_name [of frame_only_user 0 1 one_client]
  by (auto simp: frame_only_user_def eval_defs prim_defs)

text \<open>
  The claim as written fails for a frame that supplies \<open>from\<close> as the empty string and
  no \<open>user\<close>: the payload carries \<open>User_abcdef\<close> in both fields, not the supplied value.
\<close>

theorem chat_sender_name_counterexample:
  "\<not> chat_frame_invalid frame_empty_from \<and>
   member frame_empty_from (js ''from'') = Some (JStr []) \<and>
   member frame_empty_from (js ''user'') = None \<and>
   handleChatMessage 0 frame_empty_from 1 one_client =
     setImmediate (ChatFanout 0 (Chat (JStr (js ''User_abcdef'')) (JStr (js ''User_abcdef''))
       (js ''hi'') 1 (Some (js ''abcdefgh'')))) one_client \<and>
   JStr (js ''User_abcdef'') \<noteq> JStr []"
  by (simp add: frame_empty_from_def handleChatMessage_def eval_defs prim_defs)

lemma validChannels_whitelist: "JStr c \<in> set validChannels \<longleftrightarrow> c \<in> whitelist"
  by (auto simp: validChannels_def whitelist_def)

lemma join_elem_JStr: "map (join_elem \<circ> JStr) cs = cs"
  by (induction cs) (simp_all add: join_elem_def)

lemma filter_map_JStr:
  "filter (\<lambda>ch. ch \<notin> set validChannels) (map JStr cs) =
   map JStr (filter (\<lambda>c. c \<notin> whitelist) cs)"
  by (induction cs) (simp_all add: validChannels_whitelist)

section \<open>Subscription Router\<close>

text \<open>
  Claim C3. For a subscribe frame whose \<open>channels\<close> is an array of strings \<open>cs\<close>: when
  some entry is outside the whitelist, \<open>handleSubscription\<close> only sends the socket an
  error message that lists the entries outside the whitelist, and the socket's
  subscriptions stay as they were; otherwise it stores \<open>cs\<close> (the empty list as well) as
  the socket's subscriptions and sends the socket a \<open>subscription\<close> message with them.
\<close>

theorem subscribe_validates:
  assumes "member data (js ''channels'') = Some (JArr (map JStr cs))"
  shows "(if \<exists>c \<in> set cs. c \<notin> whitelist
          then handleSubscription ws data now s =
                 s\<lparr>sent := sent s @ [(ws, Error (js ''Invalid channel names: '' @
                    js_join (js '', '') (filter (\<lambda>c. c \<notin> whitelist) cs) @
                    js ''. Valid channels: '' @
                    js_join (js '', '')
                      [js ''chat'', js ''metrics'', js ''draw'', js ''notification'']))]\<rparr> \<and>
               subscriptions (heap (handleSubscription ws data now s) ws) =
                 subscriptions (heap s ws)
          else handleSubscription ws data now s =
                 s\<lparr>heap := (heap s)(ws := (heap s ws)\<lparr>subscriptions := map JStr cs\<rparr>),
                   sent := sent s @ [(ws, Subscription (map JStr cs) now)]\<rparr> \<and>
               subscriptions (heap (handleSubscription ws data now s) ws) = map JStr cs)"
proof -
  note nf = member_data_truthy [OF assms]
  have v: "map join_elem validChannels =
      [js ''chat'', js ''metrics'', js ''draw'', js ''notification'']"
    by (simp add: validChannels_def join_elem_def)
  show ?thesis
  proof (cases "\<exists>c \<in> set cs. c \<notin> whitelist")
    case True
    then have "filter (\<lambda>c. c \<notin> whitelist) cs \<noteq> []"
      by (simp add: filter_empty_conv)
    with True assms nf show ?thesis
      by (simp add: handleSubscription_def Let_def filter_map_JStr join_elem_JStr v
          ws_send_def del: js_join.simps)
  next
    case False
    then have "filter (\<lambda>c. c \<notin> whitelist) cs = []"
      by (simp add: filter_empty_conv)
    with False assms nf show ?thesis
      by (simp add: handleSubscription_def Let_def filter_map_JStr ws_send_def upd_ws_def)
  qed
qed

theorem subscribe_validates_witness:
  "member (subscribe_data [js ''bogus'']) (js ''channels'') = Some (JArr (map JStr [js ''bogus''])) \<and>
   (\<exists>c \<in> set [js ''bogus'']. c \<notin> whitelist) \<and>
   subscriptions (heap (handleSubscription 0 (subscribe_data [js ''bogus'']) 1 one_client) 0) =
     subscriptions (heap one_client 0) \<and>
   member (subscribe_data []) (js ''channels'') = Some (JArr (map JStr [])) \<and>
   subscriptions (heap (handleSubscription 0 (subscribe_data []) 1 one_client) 0) = []"
  using subscribe_validates [of "subscribe_data [js ''bogus'']" "[js ''bogus'']" 0 1 one_client]
    subscribe_validates [of "subscribe_data []" "[]" 0 1 one_client]
  by (simp add: subscribe_data_def whitelist_def js_def)

lemma visit_heap_other:
  "c \<noteq> snd e \<Longrightarrow> heap (fst (visit origin channel m throws e acc)) c = heap (fst acc) c"
  by (cases e; cases acc) (simp add: prim_defs split: option.splits)

lemma visit_sent:
  "sent (fst (visit origin channel m throws e (s, acc))) =
     sent s @ (if eligible origin channel s e then [(snd e, m)] else [])"
  by (cases e) (auto simp: eligible_def prim_defs split: option.splits)

lemma visit_marked:
  "snd (visit origin channel m throws e (s, acc)) =
     acc @ (if marked origin channel throws s e then [fst e] else [])"
  by (cases e) (auto simp: marked_def prim_defs split: option.splits)

lemma eligible_cong:
  "heap s' (snd e) = heap s (snd e) \<Longrightarrow> eligible origin channel s' e = eligible origin channel s e"
  by (simp add: eligible_def)

lemma marked_cong:
  "heap s' (snd e) = heap s (snd e) \<Longrightarrow>
   marked origin channel throws s' e = marked origin channel throws s e"
  by (simp add: marked_def)

lemma fanout_loop_sent:
  "distinct (map snd xs) \<Longrightarrow>
   sent (fst (fanout_loop origin channel m throws xs (s, acc))) =
     sent s @ map (\<lambda>e. (snd e, m)) (filter (eligible origin channel s) xs)"
proof (induction xs arbitrary: s acc)
  case Nil
  show ?case by (simp add: fanout_loop_def)
next
  case (Cons x xs)
  obtain s1 acc1 where v: "visit origin channel m throws x (s, acc) = (s1, acc1)"
    by (cases "visit origin channel m throws x (s, acc)")
  from Cons.prems have c: "snd x \<notin> snd ` set xs" and d: "distinct (map snd xs)" by auto
  have "filter (eligible origin channel s1) xs = filter (eligible origin channel s) xs"
  proof (rule filter_cong [OF refl])
    fix e assume "e \<in> set xs"
    with c have "snd e \<noteq> snd x" by (metis imageI)
    with visit_heap_other [of "snd e" x origin channel m throws "(s, acc)"] v
    have "heap s1 (snd e) = heap s (snd e)" by simp
    then show "eligible origin channel s1 e = eligible origin channel s e"
      by (rule eligible_cong)
  qed
  moreover from visit_sent [of origin channel m throws x s acc] v
  have "sent s1 = sent s @ (if eligible origin channel s x then [(snd x, m)] else [])" by simp
  moreover have "fanout_loop origin channel m throws (x # xs) (s, acc) =
      fanout_loop origin channel m throws xs (s1, acc1)"
    by (simp add: fanout_loop_def v)
  ultimately show ?case using Cons.IH [OF d, of s1 acc1] by simp
qed

lemma fanout_loop_marked:
  "distinct (map snd xs) \<Longrightarrow>
   snd (fanout_loop origin channel m throws xs (s, acc)) =
     acc @ map fst (filter (marked origin channel throws s) xs)"
proof (induction xs arbitrary: s acc)
  case Nil
  show ?case by (simp add: fanout_loop_def)
next
  case (Cons x xs)
  obtain s1 acc1 where v: "visit origin channel m throws x (s, acc) = (s1, acc1)"
    by (cases "visit origin channel m throws x (s, acc)")
  from Cons.prems have c: "snd x \<notin> snd ` set xs" and d: "distinct (map snd xs)" by auto
  have "filter (marked origin channel throws s1) xs = filter (marked origin channel throws s) xs"
  proof (rule filter_cong [OF refl])
    fix e assume "e \<in> set xs"
    with c have "snd e \<noteq> snd x" by (metis imageI)
    with visit_heap_other [of "snd e" x origin channel m throws "(s, acc)"] v
    have "heap s1 (snd e) = heap s (snd e)" by simp
    then show "marked origin channel throws s1 e = marked origin channel throws s e"
      by (rule marked_cong)
  qed
  moreover from visit_marked [of origin channel m throws x s acc] v
  have "acc1 = acc @ (if marked origin channel throws s x then [fst x] else [])" by simp
  moreover have "fanout_loop origin channel m throws (x # xs) (s, acc) =
      fanout_loop origin channel m throws xs (s1, acc1)"
    by (simp add: fanout_loop_def v)
  ultimately show ?case using Cons.IH [OF d, of s1 acc1] by simp
qed

lemma registry_ok_distinct_refs:
  assumes "registry_ok s"
  shows "distinct (map snd (clients s))"
proof -
  have "inj_on snd (set (clients s))"
  proof (rule inj_onI)
    fix a b assume a: "a \<in> set (clients s)" and b: "b \<in> set (clients s)"
      and eq: "snd a = snd b"
    from assms a have "ws_id (heap s (snd a)) = fst a"
      by (simp add: registry_ok_def list_all_iff)
    moreover from assms b have "ws_id (heap s (snd b)) = fst b"
      by (simp add: registry_ok_def list_all_iff)
    ultimately have "fst a = fst b" using eq by simp
    with eq show "a = b" by (simp add: prod_eq_iff)
  qed
  moreover from assms have "distinct (clients s)"
    by (simp add: registry_ok_def distinct_map)
  ultimately show ?thesis by (simp add: distinct_map)
qed


lemma fanout_sent:
  assumes "registry_ok s"
  shows "sent (fanout origin channel m throws s) =
     sent s @ map (\<lambda>e. (snd e, m)) (filter (eligible origin channel s) (clients s))"
  using fanout_loop_sent [OF registry_ok_distinct_refs [OF assms]]
  by (simp add: fanout_def Let_def)

lemma fanout_delivered:
  assumes "registry_ok s"
  shows "delivered s (fanout origin channel m throws s) =
     map (\<lambda>e. (snd e, m)) (filter (eligible origin channel s) (clients s))"
  by (simp add: delivered_def fanout_sent [OF assms])

lemma registry_ok_entry:
  assumes "registry_ok s" and "e \<in> set (clients s)" and "e' \<in> set (clients s)"
    and "snd e' = snd e"
  shows "e' = e"
proof -
  from assms(1,2) have "ws_id (heap s (snd e)) = fst e"
    by (simp add: registry_ok_def list_all_iff)
  moreover from assms(1,3) have "ws_id (heap s (snd e')) = fst e'"
    by (simp add: registry_ok_def list_all_iff)
  ultimately show ?thesis using assms(4) by (simp add: prod_eq_iff)
qed

lemma fanout_delivered_iff:
  assumes "registry_ok s" and "e \<in> set (clients s)"
  shows "(snd e, m') \<in> set (delivered s (fanout origin channel m throws s)) \<longleftrightarrow>
     m' = m \<and> eligible origin channel s e"
proof
  assume "(snd e, m') \<in> set (delivered s (fanout origin channel m throws s))"
  then obtain e' where e': "e' \<in> set (clients s)" "eligible origin channel s e'"
      "snd e' = snd e" "m' = m"
    by (auto simp: fanout_delivered [OF assms(1)])
  from registry_ok_entry [OF assms e'(1,3)] e' show "m' = m \<and> eligible origin channel s e"
    by simp
next
  assume "m' = m \<and> eligible origin channel s e"
  with assms(2) show "(snd e, m') \<in> set (delivered s (fanout origin channel m throws s))"
    by (auto simp: fanout_delivered [OF assms(1)] intro!: image_eqI [of _ _ e])
qed

lemma fanout_not_to_origin:
  assumes "registry_ok s"
  shows "(ws, m') \<notin> set (delivered s (fanout (Some (ws_id (heap s ws))) channel m throws s))"
proof
  assume "(ws, m') \<in> set (delivered s (fanout (Some (ws_id (heap s ws))) channel m throws s))"
  then obtain e where e: "e \<in> set (clients s)"
      "eligible (Some (ws_id (heap s ws))) channel s e" "snd e = ws"
    by (auto simp: fanout_delivered [OF assms])
  from assms e(1) have "ws_id (heap s (snd e)) = fst e"
    by (simp add: registry_ok_def list_all_iff)
  with e(2,3) show False by (simp add: eligible_def)
qed

section \<open>Broadcast Engine\<close>

text \<open>
  Claim C2, amended. In a fan-out of a chat or draw payload from the socket \<open>ws\<close>, over
  the snapshot of a registry, \<^verbatim>\<open>send\<close> is called with the payload on the socket of an
  entry if and only if the channel is among the socket's subscriptions, its id differs
  from the id of \<open>ws\<close>, and its \<open>readyState\<close> is 1 (open). A socket with no subscriptions
  is sent nothing, and \<open>ws\<close> is never sent its own payload.
\<close>

theorem fanout_delivery:
  assumes "registry_ok s" and "e \<in> set (clients s)"
  shows
    "((snd e, m) \<in> set (delivered s (chat_fanout ws m throws s)) \<longleftrightarrow>
        JStr (js ''chat'') \<in> set (subscriptions (heap s (snd e))) \<and>
        ws_id (heap s (snd e)) \<noteq> ws_id (heap s ws) \<and> readyState (heap s (snd e)) = 1) \<and>
     ((snd e, m) \<in> set (delivered s (draw_fanout ws m throws s)) \<longleftrightarrow>
        JStr (js ''draw'') \<in> set (subscriptions (heap s (snd e))) \<and>
        ws_id (heap s (snd e)) \<noteq> ws_id (heap s ws) \<and> readyState (heap s (snd e)) = 1) \<and>
     (subscriptions (heap s (snd e)) = [] \<longrightarrow>
        (snd e, m) \<notin> set (delivered s (chat_fanout ws m throws s)) \<and>
        (snd e, m) \<notin> set (delivered s (draw_fanout ws m throws s))) \<and>
     (ws, m) \<notin> set (delivered s (chat_fanout ws m throws s)) \<and>
     (ws, m) \<notin> set (delivered s (draw_fanout ws m throws s))"
proof -
  from assms have id: "ws_id (heap s (snd e)) = fst e"
    by (simp add: registry_ok_def list_all_iff)
  have el: "eligible (Some (ws_id (heap s ws))) channel s e \<longleftrightarrow>
      JStr channel \<in> set (subscriptions (heap s (snd e))) \<and>
      ws_id (heap s (snd e)) \<noteq> ws_id (heap s ws) \<and> readyState (heap s (snd e)) = 1"
    for channel
    by (auto simp: eligible_def id)
  show ?thesis
    unfolding chat_fanout_def draw_fanout_def
    using fanout_not_to_origin [OF assms(1), of ws m]
    by (simp add: fanout_delivered_iff [OF assms] el)
qed


lemma set_fold_Map_delete:
  "set (fold Map_delete ks al) = {e \<in> set al. fst e \<notin> set ks}"
  by (induction ks arbitrary: al) (auto simp: AList.delete_eq)

lemma key_in_filter:
  assumes "distinct (map fst al)" and "e \<in> set al"
  shows "fst e \<in> fst ` set (filter P al) \<longleftrightarrow> P e"
proof
  assume "fst e \<in> fst ` set (filter P al)"
  then obtain e' where e': "e' \<in> set al" "P e'" "fst e' = fst e" by auto
  from assms(1) have "inj_on fst (set al)" by (simp add: distinct_map)
  with e'(1,3) assms(2) have "e' = e" by (auto dest: inj_onD)
  with e'(2) show "P e" by simp
next
  assume "P e"
  with assms(2) show "fst e \<in> fst ` set (filter P al)" by auto
qed

text \<open>
  Claim C4, amended. Take any fan-out pass (any channel, with or without a sender to
  skip) and an entry \<open>e\<close> of the snapshot on which \<^verbatim>\<open>send\<close> is called and throws, leaving
  the socket in \<open>readyState\<close> \<open>r\<close>. The calls of \<^verbatim>\<open>send\<close> of the pass are those of a pass
  in which nothing throws; \<open>e\<close> is pushed on \<^verbatim>\<open>clientsToRemove\<close> if and only if \<open>r\<close> is not
  1; the loop leaves the registry as it is; the registry after the callback is the
  registry before it without the keys pushed, so \<open>e\<close> stays if and only if \<open>r\<close> is 1.
\<close>

theorem fanout_failure_isolation:
  assumes "registry_ok s" and "e \<in> set (clients s)"
    and "eligible origin channel s e" and "throws (snd e) = Some r"
  shows
    "delivered s (fanout origin channel m throws s) =
       delivered s (fanout origin channel m (\<lambda>c. None) s) \<and>
     (snd e, m) \<in> set (delivered s (fanout origin channel m throws s)) \<and>
     (fst e \<in> set (snd (fanout_loop origin channel m throws (clients s) (s, []))) \<longleftrightarrow> r \<noteq> 1) \<and>
     clients (fst (fanout_loop origin channel m throws (clients s) (s, []))) = clients s \<and>
     clients (fanout origin channel m throws s) =
       fold Map_delete (snd (fanout_loop origin channel m throws (clients s) (s, []))) (clients s) \<and>
     (e \<in> set (clients (fanout origin channel m throws s)) \<longleftrightarrow> r = 1)"
proof -
  note d = registry_ok_distinct_refs [OF assms(1)]
  from assms(1) have k: "distinct (map fst (clients s))" by (simp add: registry_ok_def)
  have mk: "snd (fanout_loop origin channel m throws (clients s) (s, [])) =
      map fst (filter (marked origin channel throws s) (clients s))"
    using fanout_loop_marked [OF d, of origin channel m throws s "[]"] by simp
  from assms(3,4) have me: "marked origin channel throws s e \<longleftrightarrow> r \<noteq> 1"
    by (auto simp: marked_def eligible_def)
  have a: "fst e \<in> set (snd (fanout_loop origin channel m throws (clients s) (s, []))) \<longleftrightarrow> r \<noteq> 1"
    using key_in_filter [OF k assms(2), of "marked origin channel throws s"] me
    by (simp add: mk)
  have b: "(snd e, m) \<in> set (delivered s (fanout origin channel m throws s))"
    using fanout_delivered_iff [OF assms(1,2), of m origin channel m throws] assms(3) by simp
  have c: "e \<in> set (clients (fanout origin channel m throws s)) \<longleftrightarrow> r = 1"
    using a assms(2) by (simp add: clients_fanout set_fold_Map_delete)
  show ?thesis
    using a b c
    by (simp add: fanout_delivered [OF assms(1)] clients_fanout_loop clients_fanout)
qed

lemmas scenario_defs = chat_pair_def closing_peer_def subscribe_frame_def hello_def
  on_connection_def on_message_def handleWebSocketMessage_def handleSubscription_def
  init_def new_websocket_def MAX_CONNECTIONS_def validChannels_def js_def Let_def

lemma chat_pair_eval:
  "clients chat_pair = [(js ''aaaaaaaa'', 0), (js ''bbbbbbbb'', 1)] \<and>
   nextRef chat_pair = 2 \<and>
   ws_id (heap chat_pair 0) = js ''aaaaaaaa'' \<and> ws_id (heap chat_pair 1) = js ''bbbbbbbb'' \<and>
   subscriptions (heap chat_pair 0) = [] \<and>
   subscriptions (heap chat_pair 1) = [JStr (js ''chat'')] \<and>
   readyState (heap chat_pair 0) = 1 \<and> readyState (heap chat_pair 1) = 1"
  by (simp add: scenario_defs prim_defs)

lemma chat_pair_ok: "registry_ok chat_pair"
  using chat_pair_eval by (simp add: registry_ok_def js_def)

lemma closing_peer_ok: "registry_ok closing_peer"
  using chat_pair_eval by (simp add: registry_ok_def closing_peer_def upd_ws_def js_def)

theorem fanout_delivery_witness:
  "registry_ok chat_pair \<and> (js ''bbbbbbbb'', 1) \<in> set (clients chat_pair) \<and>
   JStr (js ''chat'') \<in> set (subscriptions (heap chat_pair 1)) \<and>
   ws_id (heap chat_pair 1) \<noteq> ws_id (heap chat_pair 0) \<and> readyState (heap chat_pair 1) = 1 \<and>
   (1, hello) \<in> set (delivered chat_pair (chat_fanout 0 hello (\<lambda>c. None) chat_pair)) \<and>
   (0, hello) \<notin> set (delivered chat_pair (chat_fanout 0 hello (\<lambda>c. None) chat_pair))"
proof -
  have e: "(js ''bbbbbbbb'', 1) \<in> set (clients chat_pair)"
    using chat_pair_eval by simp
  have c: "JStr (js ''chat'') \<in> set (subscriptions (heap chat_pair 1)) \<and>
      ws_id (heap chat_pair 1) \<noteq> ws_id (heap chat_pair 0) \<and> readyState (heap chat_pair 1) = 1"
    using chat_pair_eval by (simp add: js_def)
  from fanout_delivery [OF chat_pair_ok e, of hello 0 "\<lambda>c. None"] chat_pair_ok e c
  show ?thesis unfolding snd_conv fst_conv by blast
qed

text \<open>
  The claim as written leaves out the test of \<open>readyState\<close>: a socket that is still in
  the registry, is subscribed to chat and is not the sender, but is no longer open, is
  not sent the payload.
\<close>

theorem fanout_delivery_counterexample:
  "run [Connection (js ''aaaaaaaa'') [] 0, Connection (js ''bbbbbbbb'') [] 1,
        WsMessage 1 (subscribe_frame [js ''chat'']) 2, ReadyState 1 2] (init 0) =
     Some closing_peer \<and>
   (js ''bbbbbbbb'', 1) \<in> set (clients closing_peer) \<and>
   JStr (js ''chat'') \<in> set (subscriptions (heap closing_peer 1)) \<and>
   ws_id (heap closing_peer 1) \<noteq> ws_id (heap closing_peer 0) \<and>
   (1, hello) \<notin> set (delivered closing_peer (chat_fanout 0 hello (\<lambda>c. None) closing_peer))"
proof -
  have "run [Connection (js ''aaaaaaaa'') [] 0, Connection (js ''bbbbbbbb'') [] 1,
        WsMessage 1 (subscribe_frame [js ''chat'']) 2, ReadyState 1 2] (init 0) =
     Some closing_peer"
    by (simp add: scenario_defs prim_defs)
  moreover have "(1, hello) \<notin>
      set (delivered closing_peer (chat_fanout 0 hello (\<lambda>c. None) closing_peer))"
    unfolding chat_fanout_def fanout_delivered [OF closing_peer_ok]
    using chat_pair_eval
    by (simp add: eligible_def closing_peer_def upd_ws_def)
  ultimately show ?thesis
    using chat_pair_eval by (simp add: closing_peer_def upd_ws_def js_def)
qed

theorem fanout_failure_isolation_witness:
  "registry_ok chat_pair \<and> (js ''bbbbbbbb'', 1) \<in> set (clients chat_pair) \<and>
   eligible (Some (js ''aaaaaaaa'')) (js ''chat'') chat_pair (js ''bbbbbbbb'', 1) \<and>
   throws_closed 1 = Some 3 \<and>
   (1, hello) \<in> set (delivered chat_pair
      (fanout (Some (js ''aaaaaaaa'')) (js ''chat'') hello throws_closed chat_pair)) \<and>
   (js ''bbbbbbbb'', 1) \<notin> set (clients
      (fanout (Some (js ''aaaaaaaa'')) (js ''chat'') hello throws_closed chat_pair))"
proof -
  have e: "(js ''bbbbbbbb'', 1) \<in> set (clients chat_pair)"
    using chat_pair_eval by simp
  have el: "eligible (Some (js ''aaaaaaaa'')) (js ''chat'') chat_pair (js ''bbbbbbbb'', 1)"
    using chat_pair_eval by (simp add: eligible_def js_def)
  have t: "throws_closed (snd (js ''bbbbbbbb'', 1::nat)) = Some 3"
    by (simp add: throws_closed_def)
  have t': "throws_closed 1 = Some 3" by (simp add: throws_closed_def)
  have "(3::nat) \<noteq> 1" by simp
  with fanout_failure_isolation [where throws = throws_closed and m = hello,
      OF chat_pair_ok e el t] chat_pair_ok e el t'
  show ?thesis unfolding snd_conv fst_conv by blast
qed

text \<open>
  The claim as written marks every recipient whose \<^verbatim>\<open>send\<close> fails. Here \<^verbatim>\<open>send\<close> throws
  on a recipient that stays open: nothing is pushed on \<^verbatim>\<open>clientsToRemove\<close> and the
  recipient stays in the registry.
\<close>

theorem fanout_failure_isolation_counterexample:
  "run [Connection (js ''aaaaaaaa'') [] 0, Connection (js ''bbbbbbbb'') [] 1,
        WsMessage 1 (subscribe_frame [js ''chat'']) 2] (init 0) = Some chat_pair \<and>
   (js ''bbbbbbbb'', 1) \<in> set (clients chat_pair) \<and>
   eligible (Some (ws_id (heap chat_pair 0))) (js ''chat'') chat_pair (js ''bbbbbbbb'', 1) \<and>
   throws_open 1 = Some 1 \<and>
   (1, hello) \<in> set (delivered chat_pair (chat_fanout 0 hello throws_open chat_pair)) \<and>
   snd (fanout_loop (Some (ws_id (heap chat_pair 0))) (js ''chat'') hello throws_open
     (clients chat_pair) (chat_pair, [])) = [] \<and>
   clients (chat_fanout 0 hello throws_open chat_pair) = clients chat_pair"
proof -
  have e: "(js ''bbbbbbbb'', 1) \<in> set (clients chat_pair)"
    using chat_pair_eval by simp
  have el: "eligible (Some (ws_id (heap chat_pair 0))) (js ''chat'') chat_pair
      (js ''bbbbbbbb'', 1)"
    using chat_pair_eval by (simp add: eligible_def js_def)
  have t: "throws_open 1 = Some 1" by (simp add: throws_open_def)
  have "snd (fanout_loop (Some (ws_id (heap chat_pair 0))) (js ''chat'') hello throws_open
      (clients chat_pair) (chat_pair, [])) =
      [] @ map fst (filter (marked (Some (ws_id (heap chat_pair 0))) (js ''chat'') throws_open
        chat_pair) (clients chat_pair))"
    by (rule fanout_loop_marked [OF registry_ok_distinct_refs [OF chat_pair_ok]])
  also have "\<dots> = []"
    using chat_pair_eval by (simp add: marked_def throws_open_def js_def)
  finally have m: "snd (fanout_loop (Some (ws_id (heap chat_pair 0))) (js ''chat'') hello
      throws_open (clients chat_pair) (chat_pair, [])) = []" .
  have d: "(1, hello) \<in> set (delivered chat_pair (chat_fanout 0 hello throws_open chat_pair))"
    unfolding chat_fanout_def
    using fanout_delivered_iff [OF chat_pair_ok e, of hello "Some (ws_id (heap chat_pair 0))"
        "js ''chat''" hello throws_open] el
    by simp
  have c: "clients (chat_fanout 0 hello throws_open chat_pair) = clients chat_pair"
    by (simp add: chat_fanout_def clients_fanout m)
  have r: "run [Connection (js ''aaaaaaaa'') [] 0, Connection (js ''bbbbbbbb'') [] 1,
        WsMessage 1 (subscribe_frame [js ''chat'']) 2] (init 0) = Some chat_pair"
    by (simp add: scenario_defs prim_defs)
  from r e el t m d c show ?thesis by blast
qed

section \<open>Heartbeat Monitor\<close>

lemma distinct_const_length:
  "distinct xs \<Longrightarrow> \<forall>x \<in> set xs. x = a \<Longrightarrow> length xs \<le> 1"
  by (cases xs; cases "tl xs") auto

lemma timers_ok_pending:
  assumes "timers_ok s"
  shows "length (pending_timeouts ws s) \<le> 1"
proof (cases "pingTimeout (heap s ws)")
  case None
  with assms have "pending_timeouts ws s = []"
    by (auto simp: pending_timeouts_def timers_ok_def list_all_iff filter_empty_conv)
  then show ?thesis by simp
next
  case (Some t)
  from assms have "distinct (map fst (pending_timeouts ws s))"
    by (simp add: pending_timeouts_def timers_ok_def distinct_map_filter)
  moreover from assms Some have "\<forall>x \<in> set (map fst (pending_timeouts ws s)). x = t"
    by (auto simp: pending_timeouts_def timers_ok_def list_all_iff)
  ultimately have "length (map fst (pending_timeouts ws s)) \<le> 1"
    by (rule distinct_const_length)
  then show ?thesis by simp
qed

lemma timers_ok_frame:
  assumes "timers_ok s" and "timeouts s' = timeouts s" and "nextTimer s \<le> nextTimer s'"
    and "nextRef s \<le> nextRef s'"
    and "\<And>w. w < nextRef s \<Longrightarrow> pingTimeout (heap s' w) = pingTimeout (heap s w)"
    and "set (intervals s') \<subseteq> set (intervals s)"
  shows "timers_ok s'"
  using assms by (fastforce simp: timers_ok_def list_all_iff)

lemma set_Map_delete: "set (Map_delete k al) = {e \<in> set al. fst e \<noteq> k}"
  by (auto simp: AList.delete_eq)

lemma timers_ok_clear_pingTimeout:
  assumes "timers_ok s"
  shows "timers_ok (clear_pingTimeout ws s)"
proof (cases "pingTimeout (heap s ws)")
  case None
  with assms show ?thesis by (simp add: clear_pingTimeout_def)
next
  case (Some t)
  have other: "snd e \<noteq> ws" if "e \<in> set (timeouts s)" and "fst e \<noteq> t" for e
    using assms Some that by (auto simp: timers_ok_def list_all_iff)
  have eq: "clear_pingTimeout ws s =
      s\<lparr>timeouts := Map_delete t (timeouts s),
        heap := (heap s)(ws := (heap s ws)\<lparr>pingTimeout := None\<rparr>)\<rparr>"
    using Some by (simp add: clear_pingTimeout_def clearTimeout_def upd_ws_def)
  from assms have "distinct (map fst (Map_delete t (timeouts s)))"
    by (simp add: timers_ok_def distinct_delete)
  moreover from assms other
  have "\<forall>e \<in> set (Map_delete t (timeouts s)). fst e < nextTimer s \<and> snd e < nextRef s \<and>
      pingTimeout (((heap s)(ws := (heap s ws)\<lparr>pingTimeout := None\<rparr>)) (snd e)) = Some (fst e)"
    by (auto simp: set_Map_delete timers_ok_def list_all_iff)
  moreover from assms have "\<forall>e \<in> set (intervals s). snd e < nextRef s"
    by (simp add: timers_ok_def list_all_iff)
  ultimately show ?thesis
    by (simp add: eq timers_ok_def list_all_iff)
qed

lemma timers_ok_on_pong: "timers_ok s \<Longrightarrow> timers_ok (on_pong ws s)"
  unfolding on_pong_def
  by (rule timers_ok_clear_pingTimeout) (erule timers_ok_frame, simp_all add: upd_ws_def)

lemma timers_ok_on_close: "timers_ok s \<Longrightarrow> timers_ok (on_close ws s)"
proof -
  assume ok: "timers_ok s"
  define s1 where "s1 = (case Map_get (heartbeats s) (ws_id (heap s ws)) of
      None \<Rightarrow> s
    | Some hb \<Rightarrow> (clearInterval hb s)\<lparr>heartbeats :=
        Map_delete (ws_id (heap s ws)) (heartbeats s)\<rparr>)"
  have "timers_ok s1"
    by (rule timers_ok_frame [OF ok])
       (auto simp: s1_def clearInterval_def set_Map_delete split: option.splits)
  then have "timers_ok (clear_pingTimeout ws s1)" by (rule timers_ok_clear_pingTimeout)
  then show ?thesis
    by (rule timers_ok_frame) (simp_all add: on_close_def Let_def s1_def setImmediate_def)
qed

lemma timers_ok_on_error: "timers_ok s \<Longrightarrow> timers_ok (on_error ws s)"
  by (erule timers_ok_frame)
     (auto simp: on_error_def Let_def clearInterval_def set_Map_delete split: option.splits)

lemma timers_ok_pongTimeout:
  assumes "timers_ok s" and "Map_get (timeouts s) t = Some ws"
  shows "timers_ok (pongTimeout ws (s\<lparr>timeouts := Map_delete t (timeouts s)\<rparr>))"
proof -
  from assms(2) have m: "(t, ws) \<in> set (timeouts s)" by (rule map_of_SomeD)
  with assms(1) have p: "pingTimeout (heap s ws) = Some t"
    by (auto simp: timers_ok_def list_all_iff)
  have other: "snd e \<noteq> ws" if "e \<in> set (timeouts s)" and "fst e \<noteq> t" for e
    using assms(1) p that by (auto simp: timers_ok_def list_all_iff)
  from assms(1) have d: "distinct (map fst (Map_delete t (timeouts s)))"
    by (simp add: timers_ok_def distinct_delete)
  from assms(1) other d show ?thesis
    by (auto simp: pongTimeout_def Let_def prim_defs timers_ok_def list_all_iff set_Map_delete)
qed

lemma timers_ok_heartbeat:
  assumes "timers_ok s" and "ws < nextRef s"
  shows "timers_ok (heartbeat ws ping_throws s)"
proof -
  have dead: "timers_ok (ws_terminate ws ((clear_pingTimeout ws (clearInterval hb s'))
      \<lparr>heartbeats := hbs\<rparr>))" if "timers_ok s'" for s' hb hbs
  proof -
    from that have "timers_ok (clearInterval hb s')"
      by (rule timers_ok_frame) (auto simp: clearInterval_def set_Map_delete)
    then have "timers_ok (clear_pingTimeout ws (clearInterval hb s'))"
      by (rule timers_ok_clear_pingTimeout)
    then show ?thesis
      by (rule timers_ok_frame) (simp_all add: ws_terminate_def)
  qed
  have alive0: "timers_ok (upd_ws ws (\<lambda>c. c\<lparr>isAlive := False\<rparr>) s)"
    by (rule timers_ok_frame [OF assms(1)]) (simp_all add: upd_ws_def)
  show ?thesis
  proof (cases "isAlive (heap s ws)")
    case False
    with dead [OF assms(1)] show ?thesis
      by (simp add: heartbeat_def Let_def)
  next
    case True
    show ?thesis
    proof (cases ping_throws)
      case True
      with \<open>isAlive (heap s ws)\<close> dead [OF alive0] show ?thesis
        by (simp add: heartbeat_def Let_def upd_ws_def clearInterval_def)
    next
      case False
      have other: "snd e \<noteq> ws"
        if "e \<in> set (timeouts s)" and "pingTimeout (heap s ws) \<noteq> Some (fst e)" for e
        using assms that by (auto simp: timers_ok_def list_all_iff)
      from assms have d: "distinct (map fst (Map_delete t (timeouts s)))" for t
        by (simp add: timers_ok_def distinct_delete)
      from assms have lt: "e \<in> set (timeouts s) \<Longrightarrow> fst e < nextTimer s" for e
        by (auto simp: timers_ok_def list_all_iff)
      have fresh': "nextTimer s \<notin> fst ` set (timeouts s)"
      proof
        assume "nextTimer s \<in> fst ` set (timeouts s)"
        then obtain e where "e \<in> set (timeouts s)" and "fst e = nextTimer s" by auto
        with lt [of e] show False by simp
      qed
      have fresh: "nextTimer s \<notin> fst ` set (Map_delete t (timeouts s))" for t
        using fresh' by (auto simp: set_Map_delete)
      from assms other d fresh fresh' False True show ?thesis
        by (auto simp: heartbeat_def Let_def prim_defs timers_ok_def list_all_iff
            set_Map_delete split: option.splits)
    qed
  qed
qed


lemma quiet_refl: "quiet s s"
  by (simp add: quiet_def)

lemma quiet_trans: "quiet s s1 \<Longrightarrow> quiet s1 s2 \<Longrightarrow> quiet s s2"
  by (simp add: quiet_def)

lemma quiet_visit: "quiet (fst acc) (fst (visit origin channel m throws e acc))"
  by (cases e; cases acc) (simp add: quiet_def prim_defs split: option.splits)

lemma quiet_fanout_loop: "quiet (fst acc) (fst (fanout_loop origin channel m throws xs acc))"
  unfolding fanout_loop_def
proof (induction xs arbitrary: acc)
  case Nil
  show ?case by (simp add: quiet_refl)
next
  case (Cons x xs)
  from quiet_visit [of acc origin channel m throws x]
    Cons.IH [of "visit origin channel m throws x acc"]
  show ?case by (simp add: quiet_trans)
qed

lemma quiet_fanout: "quiet s (fanout origin channel m throws s)"
  using quiet_fanout_loop [of "(s, [])" origin channel m throws "clients s"]
  by (simp add: fanout_def Let_def quiet_def)

lemma quiet_run_task: "quiet s (run_task k now throws s)"
  by (cases k)
     (simp_all add: quiet_fanout chat_fanout_def draw_fanout_def,
      simp_all add: quiet_def broadcastMetrics_def broadcastChatMessage_def prim_defs)

lemma quiet_ws_send: "quiet s (ws_send ws m s)"
  by (simp add: quiet_def ws_send_def)

lemma quiet_setImmediate: "quiet s (setImmediate k s)"
  by (simp add: quiet_def setImmediate_def)

lemma quiet_handleChatMessage: "quiet s (handleChatMessage ws d now s)"
  by (simp add: handleChatMessage_def Let_def quiet_ws_send quiet_setImmediate)

lemma quiet_handleDrawing: "quiet s (handleDrawing ws d now s)"
  by (simp add: handleDrawing_def Let_def quiet_ws_send quiet_setImmediate)

lemma quiet_handleSubscription: "quiet s (handleSubscription ws d now s)"
  by (simp add: handleSubscription_def Let_def quiet_ws_send)
     (simp add: quiet_def prim_defs)

lemma quiet_on_message: "quiet s (on_message ws parsed now s)"
  by (simp add: on_message_def handleWebSocketMessage_def quiet_handleChatMessage
      quiet_handleDrawing quiet_handleSubscription quiet_ws_send Let_def
      split: option.splits json.splits)

lemma timers_ok_quiet: "timers_ok s \<Longrightarrow> quiet s s' \<Longrightarrow> timers_ok s'"
  by (erule timers_ok_frame) (simp_all add: quiet_def)

lemma timers_ok_on_connection:
  assumes "timers_ok s"
  shows "timers_ok (on_connection clientId addr now s)"
proof -
  from assms have a: "\<forall>e \<in> set (timeouts s). fst e < nextTimer s \<and> snd e < nextRef s \<and>
      pingTimeout (heap s (snd e)) = Some (fst e)"
    and b: "\<forall>e \<in> set (intervals s). snd e < nextRef s"
    and c: "distinct (map fst (timeouts s))"
    by (simp_all add: timers_ok_def list_all_iff)
  from a b c show ?thesis
    by (auto simp: on_connection_def Let_def prim_defs timers_ok_def list_all_iff
        dest: less_SucI)
qed

lemma step_timers_ok:
  assumes "timers_ok s" and "step e s = Some s'"
  shows "timers_ok s'"
proof (cases e)
  case (Connection clientId addr now)
  with assms show ?thesis by (auto simp: timers_ok_on_connection)
next
  case (WsMessage ws parsed now)
  with assms timers_ok_quiet [OF assms(1) quiet_on_message] show ?thesis by auto
next
  case (WsPong ws)
  with assms show ?thesis by (auto simp: timers_ok_on_pong)
next
  case (WsClose ws)
  with assms show ?thesis by (auto simp: timers_ok_on_close)
next
  case (WsError ws)
  with assms show ?thesis by (auto simp: timers_ok_on_error)
next
  case (ReadyState ws r)
  have "quiet s (upd_ws ws (\<lambda>c. c\<lparr>readyState := r\<rparr>) s)"
    by (simp add: quiet_def upd_ws_def)
  with ReadyState assms timers_ok_quiet [OF assms(1)] show ?thesis by auto
next
  case (HeartbeatTick t p)
  show ?thesis
  proof (cases "Map_get (intervals s) t")
    case None
    with HeartbeatTick assms show ?thesis by auto
  next
    case (Some ws)
    then have "(t, ws) \<in> set (intervals s)" by (rule map_of_SomeD)
    with assms(1) have "ws < nextRef s" by (auto simp: timers_ok_def list_all_iff)
    with Some HeartbeatTick assms show ?thesis by (auto simp: timers_ok_heartbeat)
  qed
next
  case (PongTimeout t)
  with assms show ?thesis
    by (cases "Map_get (timeouts s) t") (auto simp: timers_ok_pongTimeout)
next
  case (Immediate now throws)
  show ?thesis
  proof (cases "immediates s")
    case Nil
    with Immediate assms show ?thesis by auto
  next
    case (Cons k ks)
    have "quiet s (s\<lparr>immediates := ks\<rparr>)" by (simp add: quiet_def)
    from quiet_trans [OF this quiet_run_task [of _ k now throws]] Cons Immediate assms
      timers_ok_quiet [OF assms(1)]
    show ?thesis by auto
  qed
next
  case (MetricsCalculation now)
  with assms show ?thesis
    by (auto simp: metricsCalculation_def Let_def timers_ok_def split: if_splits)
next
  case (MetricsBroadcast now)
  have "quiet s (broadcastMetrics now s)"
    by (simp add: quiet_def broadcastMetrics_def prim_defs)
  with MetricsBroadcast assms timers_ok_quiet [OF assms(1)] show ?thesis by auto
next
  case (HttpRequest now)
  with assms show ?thesis
    by (auto simp: handleRequest_def Let_def timers_ok_def split: if_splits)
qed

lemma run_timers_ok: "timers_ok s \<Longrightarrow> run es s = Some s' \<Longrightarrow> timers_ok s'"
proof (induction es arbitrary: s)
  case Nil
  then show ?case by simp
next
  case (Cons e es)
  from Cons.prems(2) obtain s1 where s1: "step e s = Some s1" and r: "run es s1 = Some s'"
    by (auto split: option.splits)
  from Cons.IH [OF step_timers_ok [OF Cons.prems(1) s1] r] show ?case .
qed


lemma pending_after_delete:
  assumes "timers_ok s" and "pingTimeout (heap s ws) = Some t"
  shows "filter (\<lambda>e. snd e = ws) (Map_delete t (timeouts s)) = []"
  using assms by (auto simp: filter_empty_conv set_Map_delete timers_ok_def list_all_iff)

lemma pending_none:
  assumes "timers_ok s" and "pingTimeout (heap s ws) = None"
  shows "filter (\<lambda>e. snd e = ws) (timeouts s) = []"
  using assms by (auto simp: filter_empty_conv timers_ok_def list_all_iff)

lemma heartbeat_arms_one:
  assumes "timers_ok s" and "isAlive (heap s ws)"
  shows "pending_timeouts ws (heartbeat ws False s) = [(nextTimer s, ws)] \<and>
     pingTimeout (heap (heartbeat ws False s) ws) = Some (nextTimer s) \<and>
     (\<forall>t. (t, ws) \<in> set (timeouts s) \<longrightarrow> t \<notin> fst ` set (timeouts (heartbeat ws False s)))"
proof (cases "pingTimeout (heap s ws)")
  case None
  from pending_none [OF assms(1) None] have "\<forall>t. (t, ws) \<notin> set (timeouts s)"
    by (auto simp: filter_empty_conv)
  with assms(2) None pending_none [OF assms(1) None] show ?thesis
    by (simp add: heartbeat_def Let_def prim_defs pending_timeouts_def)
next
  case (Some t0)
  have old: "t = t0 \<and> t < nextTimer s" if "(t, ws) \<in> set (timeouts s)" for t
    using assms(1) Some that by (auto simp: timers_ok_def list_all_iff)
  have gone: "t0 \<notin> fst ` set (Map_delete t0 (timeouts s))"
    by (rule delete_notin_dom)
  from assms(2) Some pending_after_delete [OF assms(1) Some] old gone show ?thesis
    by (auto simp: heartbeat_def Let_def prim_defs pending_timeouts_def)
qed

lemma on_pong_cancels:
  assumes "timers_ok s"
  shows "isAlive (heap (on_pong ws s) ws) \<and> pingTimeout (heap (on_pong ws s) ws) = None \<and>
     pending_timeouts ws (on_pong ws s) = []"
proof (cases "pingTimeout (heap s ws)")
  case None
  with pending_none [OF assms None] show ?thesis
    by (simp add: on_pong_def prim_defs pending_timeouts_def)
next
  case (Some t0)
  with pending_after_delete [OF assms Some] show ?thesis
    by (simp add: on_pong_def prim_defs pending_timeouts_def)
qed

text \<open>
  What a reap by the pong timeout does (lines 65-73): it clears the interval of the
  socket, drops the socket's entry of \<open>heartbeats\<close>, and calls \<^verbatim>\<open>terminate\<close>. It leaves
  the registry and every other socket object as they are; the registry entry goes when
  the \<^verbatim>\<open>close\<close> listener runs.
\<close>

lemma pongTimeout_reap:
  assumes "\<not> isAlive (heap s ws)" and "readyState (heap s ws) = 1"
  shows "terminated (pongTimeout ws s) = terminated s @ [ws] \<and>
     intervals (pongTimeout ws s) = Map_delete (heartbeatInterval (heap s ws)) (intervals s) \<and>
     heartbeats (pongTimeout ws s) = Map_delete (ws_id (heap s ws)) (heartbeats s) \<and>
     clients (pongTimeout ws s) = clients s \<and>
     (\<forall>w. w \<noteq> ws \<longrightarrow> heap (pongTimeout ws s) w = heap s w)"
  using assms by (simp add: pongTimeout_def Let_def prim_defs)

text \<open>
  Claim C5. From every state with well-formed timers (\<open>timers_ok\<close>; the initial state is
  one) every sequence of events leads to a state with well-formed timers, in which every
  socket has at most one pending pong timeout. In such a state a heartbeat tick on a live
  socket whose ping succeeds leaves exactly one pending timeout for it, the new one, and
  none of the timeouts that were pending for it before; the pong listener sets
  \<open>isAlive\<close>, clears \<^verbatim>\<open>ws.pingTimeout\<close> and leaves no pending timeout for the socket.
\<close>

theorem one_pending_timeout:
  assumes "timers_ok s" and "\<not> statsLock s"
  shows "(\<exists>s'. run es s = Some s' \<and> timers_ok s' \<and>
            (\<forall>w. length (pending_timeouts w s') \<le> 1)) \<and>
     length (pending_timeouts ws s) \<le> 1 \<and>
     (isAlive (heap s ws) \<longrightarrow>
        pending_timeouts ws (heartbeat ws False s) = [(nextTimer s, ws)] \<and>
        pingTimeout (heap (heartbeat ws False s) ws) = Some (nextTimer s) \<and>
        (\<forall>t. (t, ws) \<in> set (timeouts s) \<longrightarrow>
           t \<notin> fst ` set (timeouts (heartbeat ws False s)))) \<and>
     isAlive (heap (on_pong ws s) ws) \<and> pingTimeout (heap (on_pong ws s) ws) = None \<and>
     pending_timeouts ws (on_pong ws s) = []"
proof -
  from run_total [OF assms(2), of es] obtain s' where r: "run es s = Some s'" by blast
  from run_timers_ok [OF assms(1) r] have ok: "timers_ok s'" .
  from r ok timers_ok_pending [OF ok]
  have "\<exists>s'. run es s = Some s' \<and> timers_ok s' \<and>
      (\<forall>w. length (pending_timeouts w s') \<le> 1)"
    by blast
  with heartbeat_arms_one [OF assms(1), of ws] on_pong_cancels [OF assms(1), of ws]
    timers_ok_pending [OF assms(1), of ws]
  show ?thesis by blast
qed

lemma one_client_eval:
  "timeouts one_client = [] \<and> intervals one_client = [(0, 0)] \<and> nextRef one_client = 1 \<and>
   nextTimer one_client = 1 \<and> isAlive (heap one_client 0) \<and> \<not> statsLock one_client"
  by (simp add: one_client_def on_connection_def init_def new_websocket_def
      MAX_CONNECTIONS_def Let_def prim_defs)

theorem one_pending_timeout_witness:
  "timers_ok one_client \<and> \<not> statsLock one_client \<and> isAlive (heap one_client 0) \<and>
   pending_timeouts 0 (heartbeat 0 False one_client) = [(nextTimer one_client, 0)] \<and>
   pending_timeouts 0 (on_pong 0 one_client) = [] \<and>
   (\<exists>s'. run [HeartbeatTick 0 False, WsPong 0, HeartbeatTick 0 False] one_client = Some s' \<and>
      (\<forall>w. length (pending_timeouts w s') \<le> 1))"
proof -
  have ok: "timers_ok one_client"
    using one_client_eval by (simp add: timers_ok_def)
  from one_client_eval have l: "\<not> statsLock one_client" and a: "isAlive (heap one_client 0)"
    by simp_all
  from one_pending_timeout [OF ok l, of "[HeartbeatTick 0 False, WsPong 0, HeartbeatTick 0 False]" 0]
    ok l a
  show ?thesis by blast
qed


section \<open>The registry stays well formed\<close>

text \<open>
  \<open>registry_ok\<close>, the hypothesis of the fan-out theorems, holds initially and after
  every event.
\<close>

lemma distinct_fold_Map_delete:
  "distinct (map fst al) \<Longrightarrow> distinct (map fst (fold Map_delete ks al))"
  by (induction ks arbitrary: al) (simp_all add: distinct_delete)

lemma set_Map_set_subset: "set (Map_set k v al) \<subseteq> insert (k, v) (set al)"
  by (induction al) auto

lemma registry_ok_shrink:
  assumes "registry_ok s" and "nextRef s \<le> nextRef s'"
    and "\<And>c. c < nextRef s \<Longrightarrow> ws_id (heap s' c) = ws_id (heap s c)"
    and "clients s' = fold Map_delete ks (clients s)"
  shows "registry_ok s'"
proof -
  from assms(1,4) have "distinct (map fst (clients s'))"
    by (simp add: registry_ok_def distinct_fold_Map_delete)
  moreover have "snd e < nextRef s' \<and> ws_id (heap s' (snd e)) = fst e"
    if "e \<in> set (clients s')" for e
  proof -
    from that assms(4) have "e \<in> set (clients s)" by (simp add: set_fold_Map_delete)
    with assms(1) have "snd e < nextRef s" and "ws_id (heap s (snd e)) = fst e"
      by (simp_all add: registry_ok_def list_all_iff)
    with assms(2,3) show ?thesis by simp
  qed
  ultimately show ?thesis by (simp add: registry_ok_def list_all_iff)
qed

lemma registry_ok_quiet:
  "registry_ok s \<Longrightarrow> quiet s s' \<Longrightarrow> clients s' = fold Map_delete ks (clients s) \<Longrightarrow>
   registry_ok s'"
  by (erule registry_ok_shrink) (simp_all add: quiet_def)

lemma registry_ok_on_connection:
  assumes "registry_ok s"
  shows "registry_ok (on_connection clientId addr now s)"
proof (cases "MAX_CONNECTIONS \<le> Map_size (clients s)")
  case True
  have "registry_ok (on_connection clientId addr now s)"
  proof (rule registry_ok_shrink [OF assms, where ks = "[]"])
    show "nextRef s \<le> nextRef (on_connection clientId addr now s)"
      using True by (simp add: on_connection_def Let_def prim_defs)
    show "ws_id (heap (on_connection clientId addr now s) c) = ws_id (heap s c)"
      if "c < nextRef s" for c
      using True that by (simp add: on_connection_def Let_def prim_defs)
    show "clients (on_connection clientId addr now s) = fold Map_delete [] (clients s)"
      using True by (simp add: clients_on_connection)
  qed
  then show ?thesis .
next
  case False
  let ?s' = "on_connection clientId addr now s"
  from False have c: "clients ?s' = Map_set clientId (nextRef s) (clients s)"
    by (simp add: clients_on_connection)
  from False have n: "nextRef ?s' = Suc (nextRef s)"
    by (simp add: on_connection_def Let_def prim_defs)
  from False have new: "ws_id (heap ?s' (nextRef s)) = clientId"
    by (simp add: on_connection_def Let_def prim_defs)
  from False have old: "ws_id (heap ?s' c) = ws_id (heap s c)" if "c < nextRef s" for c
    using that by (simp add: on_connection_def Let_def prim_defs)
  from assms have "distinct (map fst (clients ?s'))"
    by (simp add: c registry_ok_def distinct_update)
  moreover have "snd e < nextRef ?s' \<and> ws_id (heap ?s' (snd e)) = fst e"
    if "e \<in> set (clients ?s')" for e
  proof (cases "e = (clientId, nextRef s)")
    case True
    with n new show ?thesis by simp
  next
    case False
    with that c set_Map_set_subset [of clientId "nextRef s" "clients s"]
    have "e \<in> set (clients s)" by auto
    with assms have "snd e < nextRef s" and "ws_id (heap s (snd e)) = fst e"
      by (simp_all add: registry_ok_def list_all_iff)
    with n old show ?thesis by simp
  qed
  ultimately show ?thesis by (simp add: registry_ok_def list_all_iff)
qed

lemma step_registry_ok:
  assumes "registry_ok s" and "step e s = Some s'"
  shows "registry_ok s'"
proof (cases e)
  case (Connection clientId addr now)
  with assms show ?thesis by (auto simp: registry_ok_on_connection)
next
  case (WsMessage ws parsed now)
  from registry_ok_quiet [OF assms(1) quiet_on_message, of ws parsed now "[]"]
    WsMessage assms
  show ?thesis by (auto simp: clients_on_message)
next
  case (WsPong ws)
  have "registry_ok (on_pong ws s)"
    by (rule registry_ok_shrink [OF assms(1), where ks = "[]"])
       (simp_all add: on_pong_def prim_defs split: option.splits)
  with WsPong assms show ?thesis by auto
next
  case (WsClose ws)
  have "registry_ok (on_close ws s)"
    by (rule registry_ok_shrink [OF assms(1), where ks = "[ws_id (heap s ws)]"])
       (simp_all add: on_close_def Let_def prim_defs split: option.splits)
  with WsClose assms show ?thesis by auto
next
  case (WsError ws)
  have "registry_ok (on_error ws s)"
    by (rule registry_ok_shrink [OF assms(1), where ks = "[ws_id (heap s ws)]"])
       (simp_all add: on_error_def Let_def prim_defs split: option.splits)
  with WsError assms show ?thesis by auto
next
  case (ReadyState ws r)
  have "registry_ok (upd_ws ws (\<lambda>c. c\<lparr>readyState := r\<rparr>) s)"
    by (rule registry_ok_shrink [OF assms(1), where ks = "[]"]) (simp_all add: upd_ws_def)
  with ReadyState assms show ?thesis by auto
next
  case (HeartbeatTick t p)
  have "registry_ok (heartbeat ws p s)" for ws
    by (rule registry_ok_shrink [OF assms(1), where ks = "[]"])
       (simp_all add: heartbeat_def Let_def prim_defs split: option.splits)
  with HeartbeatTick assms show ?thesis by (auto split: option.splits)
next
  case (PongTimeout t)
  have "registry_ok (pongTimeout ws (s\<lparr>timeouts := ts\<rparr>))" for ws ts
    by (rule registry_ok_shrink [OF assms(1), where ks = "[]"])
       (simp_all add: pongTimeout_def Let_def prim_defs)
  with PongTimeout assms show ?thesis by (auto split: option.splits)
next
  case (Immediate now throws)
  show ?thesis
  proof (cases "immediates s")
    case Nil
    with Immediate assms show ?thesis by auto
  next
    case (Cons k ks)
    have q: "quiet s (s\<lparr>immediates := ks\<rparr>)" by (simp add: quiet_def)
    from clients_run_task [of k now throws "s\<lparr>immediates := ks\<rparr>"] obtain ds
      where "clients (run_task k now throws (s\<lparr>immediates := ks\<rparr>)) =
        fold Map_delete ds (clients s)" by auto
    from registry_ok_quiet [OF assms(1) quiet_trans [OF q quiet_run_task] this]
      Cons Immediate assms
    show ?thesis by auto
  qed
next
  case (MetricsCalculation now)
  with assms show ?thesis
    by (auto simp: metricsCalculation_def Let_def registry_ok_def split: if_splits)
next
  case (MetricsBroadcast now)
  have "registry_ok (broadcastMetrics now s)"
    by (rule registry_ok_shrink [OF assms(1), where ks = "[]"])
       (simp_all add: broadcastMetrics_def prim_defs)
  with MetricsBroadcast assms show ?thesis by auto
next
  case (HttpRequest now)
  with assms show ?thesis
    by (auto simp: handleRequest_def Let_def registry_ok_def split: if_splits)
qed

lemma run_registry_ok: "registry_ok s \<Longrightarrow> run es s = Some s' \<Longrightarrow> registry_ok s'"
proof (induction es arbitrary: s)
  case Nil
  then show ?case by simp
next
  case (Cons e es)
  from Cons.prems(2) obtain s1 where s1: "step e s = Some s1" and r: "run es s1 = Some s'"
    by (auto split: option.splits)
  from Cons.IH [OF step_registry_ok [OF Cons.prems(1) s1] r] show ?case .
qed

lemma registry_ok_init: "registry_ok (init now)"
  by (simp add: registry_ok_def init_def)

lemma timers_ok_init: "timers_ok (init now)"
  by (simp add: timers_ok_def init_def)

end
